theory Spec2Isabelle
  imports Main "HOL-Library.Word" "HOL-Library.Signed_Division"
begin

unbundle bit_operations_syntax

section \<open>Device buffers, grids and kernel launches\<close>

text \<open>
  The kernels of \<^verbatim>\<open>src/models/kernels.cu\<close> work on flat device buffers addressed by a
  computed offset. A buffer is modelled as the memory seen through its base pointer: a
  total function from the element offset to the element. The kernels contain no bounds
  checks of their own, so no bounds are added here; every theorem names the offsets it
  speaks about. Distinct pointer arguments of one call are distinct buffers (the caller
  passes separate allocations).

  The C++ type \<^verbatim>\<open>int\<close> of sizes, lengths and offsets is modelled by \<^typ>\<open>int\<close>: signed
  overflow is undefined behaviour in C++, so the model describes the executions in which
  every \<^verbatim>\<open>int\<close> expression stays within range. The operators \<^verbatim>\<open>/\<close> and \<^verbatim>\<open>%\<close>
  truncate towards zero and are \<open>sdiv\<close> and \<open>smod\<close>; a division by zero is undefined
  behaviour and is the value \<open>Inl DivisionByZero\<close> of the model.
  The unsigned components of \<^verbatim>\<open>blockIdx\<close>, \<^verbatim>\<open>blockDim\<close> and \<^verbatim>\<open>threadIdx\<close> are
  natural numbers.
\<close>

type_synonym 'a buffer = "int \<Rightarrow> 'a"

type_synonym dim3 = "nat \<times> nat \<times> nat"

datatype fault = DivisionByZero

text \<open>All index triples below the extents of a \<^verbatim>\<open>dim3\<close>, x running fastest.\<close>

definition indices :: "dim3 \<Rightarrow> dim3 list" where
  "indices d = (case d of (dx, dy, dz) \<Rightarrow>
     concat (map (\<lambda>iz. concat (map (\<lambda>iy. map (\<lambda>ix. (ix, iy, iz)) [0..<dx]) [0..<dy])) [0..<dz]))"

text \<open>
  The threads of a launch \<^verbatim>\<open><<<grid, block>>>\<close>: every pair of a block index and a
  thread index. A launch whose grid or block has an extent 0 is refused by the device
  and runs no thread; a negative \<^verbatim>\<open>int\<close> extent converts to an unsigned extent beyond
  the device's limits and is refused as well, so \<open>nat\<close> (which maps it to 0) agrees with
  the device on the buffers. Where a launcher rounds a length up to whole blocks,
  \<^verbatim>\<open>(length + n - 1) / n\<close>, in unsigned arithmetic, the model computes the same
  quotient on the integers; the two agree for every length from \<open>- (n - 1)\<close> on, so for
  every length a caller can pass.
\<close>

definition grid_threads :: "dim3 \<Rightarrow> dim3 \<Rightarrow> (dim3 \<times> dim3) list" where
  "grid_threads grid block = List.product (indices grid) (indices block)"

text \<open>
  A kernel without a barrier is its thread body, run once for every thread of the launch.
  The threads of the kernels below touch pairwise disjoint cells (or store the same
  value), so the order in which the model runs them is immaterial.
\<close>

definition launch :: "dim3 \<Rightarrow> dim3 \<Rightarrow> (dim3 \<Rightarrow> dim3 \<times> dim3 \<Rightarrow> 's \<Rightarrow> 's) \<Rightarrow> 's \<Rightarrow> 's" where
  "launch grid block body s = fold (body block) (grid_threads grid block) s"

text \<open>The same for a thread body that can run into undefined behaviour.\<close>

fun run_threads :: "('t \<Rightarrow> 's \<Rightarrow> fault + 's) \<Rightarrow> 't list \<Rightarrow> 's \<Rightarrow> fault + 's" where
  "run_threads body [] s = Inr s"
| "run_threads body (t # ts) s =
     (case body t s of Inl e \<Rightarrow> Inl e | Inr s' \<Rightarrow> run_threads body ts s')"

definition launch_checked ::
  "dim3 \<Rightarrow> dim3 \<Rightarrow> (dim3 \<Rightarrow> dim3 \<times> dim3 \<Rightarrow> 's \<Rightarrow> fault + 's) \<Rightarrow> 's \<Rightarrow> fault + 's" where
  "launch_checked grid block body s = run_threads (body block) (grid_threads grid block) s"


section \<open>Position ids\<close>

text \<open>
  \<^verbatim>\<open>UpdatePositionIds<T>\<close> (lines 11-16), with \<^verbatim>\<open>T\<close> one of \<^verbatim>\<open>int32_t\<close> and
  \<^verbatim>\<open>int64_t\<close>: a word of the element's width. \<^verbatim>\<open>positions[i]++\<close> is the word's
  successor.
\<close>

fun UpdatePositionIds :: "'a::len word buffer \<Rightarrow> int \<Rightarrow> dim3 \<Rightarrow> dim3 \<times> dim3 \<Rightarrow> 'a word buffer" where
  "UpdatePositionIds positions batch_beam_size (blockDim_x, blockDim_y, blockDim_z)
       ((blockIdx_x, blockIdx_y, blockIdx_z), (threadIdx_x, threadIdx_y, threadIdx_z)) =
     (let i = int (blockIdx_x * blockDim_x + threadIdx_x) in
      if i < batch_beam_size then positions(i := positions i + 1) else positions)"

text \<open>\<^verbatim>\<open>Launch_UpdatePositionIds<T>\<close> (lines 18-21).\<close>

definition Launch_UpdatePositionIds :: "'a::len word buffer \<Rightarrow> int \<Rightarrow> 'a word buffer" where
  "Launch_UpdatePositionIds positions batch_beam_size =
     launch (nat ((batch_beam_size + 255) sdiv 256), 1, 1) (256, 1, 1)
       (\<lambda>blockDim idx p. UpdatePositionIds p batch_beam_size blockDim idx) positions"

text \<open>The two explicit instantiations of the template (lines 23-24).\<close>

definition Launch_UpdatePositionIds_int32 :: "32 word buffer \<Rightarrow> int \<Rightarrow> 32 word buffer" where
  "Launch_UpdatePositionIds_int32 = Launch_UpdatePositionIds"

definition Launch_UpdatePositionIds_int64 :: "64 word buffer \<Rightarrow> int \<Rightarrow> 64 word buffer" where
  "Launch_UpdatePositionIds_int64 = Launch_UpdatePositionIds"


section \<open>Attention mask\<close>

text \<open>
  \<^verbatim>\<open>CopyAndUpdateAttentionMask<T>\<close> (lines 26-39). The thread divides by
  \<^verbatim>\<open>current_length\<close> before any test.
\<close>

fun CopyAndUpdateAttentionMask ::
  "'a::len word buffer \<Rightarrow> 'a word buffer \<Rightarrow> int \<Rightarrow> int \<Rightarrow> int \<Rightarrow> dim3 \<Rightarrow> dim3 \<times> dim3
     \<Rightarrow> fault + 'a word buffer" where
  "CopyAndUpdateAttentionMask mask_data old_mask_data batch_beam_size current_length max_length
       (blockDim_x, blockDim_y, blockDim_z)
       ((blockIdx_x, blockIdx_y, blockIdx_z), (threadIdx_x, threadIdx_y, threadIdx_z)) =
     (let global_index = int (blockIdx_x * blockDim_x + threadIdx_x) in
      if current_length = 0 then Inl DivisionByZero
      else
        let i = global_index sdiv current_length;
            j = global_index smod current_length in
        if i < batch_beam_size then
          (if j < current_length - 1 then
             Inr (mask_data(i * max_length + j := old_mask_data (i * (current_length - 1) + j)))
           else
             Inr (mask_data(i * max_length + j := 1)))
        else Inr mask_data)"

text \<open>\<^verbatim>\<open>UpdateAttentionMask<T>\<close> (lines 41-47).\<close>

fun UpdateAttentionMask ::
  "'a::len word buffer \<Rightarrow> int \<Rightarrow> int \<Rightarrow> int \<Rightarrow> dim3 \<Rightarrow> dim3 \<times> dim3 \<Rightarrow> 'a word buffer" where
  "UpdateAttentionMask mask_data batch_beam_size current_length max_length
       (blockDim_x, blockDim_y, blockDim_z)
       ((blockIdx_x, blockIdx_y, blockIdx_z), (threadIdx_x, threadIdx_y, threadIdx_z)) =
     (let i = int blockIdx_x in
      if i < batch_beam_size then mask_data(i * max_length + current_length := 1)
      else mask_data)"

text \<open>\<^verbatim>\<open>Launch_UpdateAttentionMask<T>\<close> (lines 49-59).\<close>

definition Launch_UpdateAttentionMask ::
  "'a::len word buffer \<Rightarrow> 'a word buffer \<Rightarrow> int \<Rightarrow> int \<Rightarrow> int \<Rightarrow> bool \<Rightarrow> fault + 'a word buffer" where
  "Launch_UpdateAttentionMask mask_data old_mask_data batch_beam_size current_length max_length
       update_only =
     (if update_only then
        Inr (launch (nat batch_beam_size, 1, 1) (1, 1, 1)
          (\<lambda>blockDim idx m. UpdateAttentionMask m batch_beam_size current_length max_length blockDim idx)
          mask_data)
      else
        launch_checked (nat ((batch_beam_size * max_length + 255) sdiv 256), 1, 1) (256, 1, 1)
          (\<lambda>blockDim idx m. CopyAndUpdateAttentionMask m old_mask_data batch_beam_size
             current_length max_length blockDim idx)
          mask_data)"


section \<open>Past-state cache reorder\<close>

definition kTileSize :: nat where
  "kTileSize = 32"

definition kSeqTileSize :: nat where
  "kSeqTileSize = 16"

text \<open>
  The shared array \<^verbatim>\<open>tile[kSeqTileSize][kTileSize + 1]\<close> is a buffer of its own, a row
  of \<open>kTileSize + 1\<close> elements after the other; \<open>tile_index r c\<close> is the place of
  \<^verbatim>\<open>tile[r][c]\<close> in it. An element (a \<^verbatim>\<open>float4\<close>) is only copied, so its type is
  left open.
\<close>

definition tile_index :: "int \<Rightarrow> int \<Rightarrow> int" where
  "tile_index r c = r * int (kTileSize + 1) + c"

text \<open>
  \<^verbatim>\<open>ReorderPastStatesKernel\<close> (lines 70-101) has a barrier: every thread of a block runs
  the part before \<^verbatim>\<open>__syncthreads()\<close> (lines 78-87), then every thread runs the part
  after it (lines 91-100). The two parts of the thread body:
\<close>

fun ReorderPastStatesKernel_stage ::
  "'a buffer \<Rightarrow> 'a buffer \<Rightarrow> int \<Rightarrow> int \<Rightarrow> int \<Rightarrow> int \<Rightarrow> dim3 \<times> dim3 \<Rightarrow> 'a buffer" where
  "ReorderPastStatesKernel_stage tile in_buffer batch_size num_heads max_length chunked_head_size
       ((blockIdx_x, blockIdx_y, blockIdx_z), (threadIdx_x, threadIdx_y, threadIdx_z)) =
     (let b = int blockIdx_z;
          n = int blockIdx_y;
          s_base = int (blockIdx_x * kSeqTileSize);
          s = s_base + int threadIdx_y;
          base_offset = (b * num_heads + n) * max_length * chunked_head_size in
      if s < max_length then
        (let in_offset = base_offset + s * chunked_head_size + int threadIdx_x in
         tile(tile_index (int threadIdx_y) (int threadIdx_x) := in_buffer in_offset))
      else tile)"

fun ReorderPastStatesKernel_write ::
  "'a buffer \<Rightarrow> 'a buffer \<Rightarrow> int \<Rightarrow> int \<Rightarrow> int \<Rightarrow> int \<Rightarrow> dim3 \<times> dim3 \<Rightarrow> 'a buffer" where
  "ReorderPastStatesKernel_write out_buffer tile batch_size num_heads max_length chunked_head_size
       ((blockIdx_x, blockIdx_y, blockIdx_z), (threadIdx_x, threadIdx_y, threadIdx_z)) =
     (let b = int blockIdx_z;
          n = int blockIdx_y;
          s_base = int (blockIdx_x * kSeqTileSize);
          base_offset = (b * num_heads + n) * max_length * chunked_head_size;
          tidx = int threadIdx_x + int threadIdx_y * chunked_head_size;
          tidx_x = tidx smod int kSeqTileSize;
          tidx_y = tidx sdiv int kSeqTileSize;
          s2 = s_base + tidx_x in
      if s2 < max_length then
        (let out_offset = base_offset + tidx_y * max_length + s2 in
         out_buffer(out_offset := tile (tile_index tidx_x tidx_y)))
      else out_buffer)"

text \<open>
  One block: its shared tile starts with whatever the shared memory holds (\<open>shared\<close>),
  all its threads stage, then all its threads write.
\<close>

definition ReorderPastStatesKernel_block ::
  "'a buffer \<Rightarrow> 'a buffer \<Rightarrow> int \<Rightarrow> int \<Rightarrow> int \<Rightarrow> int \<Rightarrow> 'a buffer \<Rightarrow> dim3 \<Rightarrow> dim3 \<Rightarrow> 'a buffer" where
  "ReorderPastStatesKernel_block out_buffer in_buffer batch_size num_heads max_length
       chunked_head_size shared blockDim blockIdx =
     (let tile = fold (\<lambda>threadIdx t. ReorderPastStatesKernel_stage t in_buffer batch_size
                     num_heads max_length chunked_head_size (blockIdx, threadIdx))
                   (indices blockDim) shared
      in fold (\<lambda>threadIdx out. ReorderPastStatesKernel_write out tile batch_size num_heads
                 max_length chunked_head_size (blockIdx, threadIdx))
              (indices blockDim) out_buffer)"

text \<open>
  The launch of the kernel on a grid: block after block, each with its own shared memory,
  whose uninitialised contents at the start of block \<open>blockIdx\<close> are
  \<open>shared blockIdx\<close>.
\<close>

definition ReorderPastStatesKernel ::
  "dim3 \<Rightarrow> dim3 \<Rightarrow> (dim3 \<Rightarrow> 'a buffer) \<Rightarrow> 'a buffer \<Rightarrow> 'a buffer \<Rightarrow> int \<Rightarrow> int \<Rightarrow> int \<Rightarrow> int
     \<Rightarrow> 'a buffer" where
  "ReorderPastStatesKernel grid block shared out_buffer in_buffer batch_size num_heads max_length
       chunked_head_size =
     fold (\<lambda>blockIdx out. ReorderPastStatesKernel_block out in_buffer batch_size num_heads
             max_length chunked_head_size (shared blockIdx) block blockIdx)
          (indices grid) out_buffer"

text \<open>
  \<^verbatim>\<open>ReorderPastStatesKernelLauncher\<close> (lines 103-123). The function returns nothing; the
  result of the model is the output buffer after the call, or the fault of the host's
  division \<^verbatim>\<open>head_size / chunk_size\<close>. The last argument is the contents of the shared
  memory, which the source does not initialise.
\<close>

definition ReorderPastStatesKernelLauncher ::
  "'a buffer \<Rightarrow> 'a buffer \<Rightarrow> int \<Rightarrow> int \<Rightarrow> int \<Rightarrow> int \<Rightarrow> int \<Rightarrow> (dim3 \<Rightarrow> 'a buffer)
     \<Rightarrow> fault + 'a buffer" where
  "ReorderPastStatesKernelLauncher out_buffer in_buffer batch_size num_heads max_length head_size
       chunk_size shared =
     (if chunk_size = 0 then Inl DivisionByZero
      else
        let chunked_head_size = head_size sdiv chunk_size;
            block = (nat chunked_head_size, kSeqTileSize, 1);
            grid = (nat ((max_length + int kSeqTileSize - 1) sdiv int kSeqTileSize),
                    nat num_heads, nat batch_size) in
        if chunk_size = 4 \<or> chunk_size = 8 then
          Inr (ReorderPastStatesKernel grid block shared out_buffer in_buffer batch_size
                 num_heads max_length chunked_head_size)
        else Inr out_buffer)"

text \<open>
  The inverse axis swap of the spec's round-trip property (section 8, "converting layout
  A\<rightarrow>B then the inverse B\<rightarrow>A"). The source has no function for it; this definition follows
  the spec's words and is what the kernel is compared with. It reads a buffer laid out
  \<open>[B, N, H2, Lmax]\<close> and gives the buffer laid out \<open>[B, N, Lmax, H2]\<close>, swapping the two
  inner axes back; offsets outside the cache are left alone.
\<close>

definition spec_inverse_axis_swap :: "'a buffer \<Rightarrow> int \<Rightarrow> int \<Rightarrow> int \<Rightarrow> int \<Rightarrow> 'a buffer" where
  "spec_inverse_axis_swap buf batch_size num_heads max_length chunked_head_size =
     (\<lambda>offset.
        if 0 \<le> offset \<and> offset < batch_size * num_heads * max_length * chunked_head_size then
          (let bn = offset div (max_length * chunked_head_size);
               r = offset mod (max_length * chunked_head_size);
               t = r div chunked_head_size;
               c = r mod chunked_head_size in
           buf (bn * max_length * chunked_head_size + c * max_length + t))
        else buf offset)"


section \<open>End-of-sequence logits\<close>

text \<open>
  A \<^verbatim>\<open>float\<close> is its IEEE 754 binary32 bit pattern: bit 31 the sign, the low 31 bits
  the magnitude (exponent and fraction). A pattern is a NaN when its magnitude is above
  that of infinity. Among the others, \<^verbatim>\<open><\<close> is the order of the signed magnitudes
  (the two zeros being equal); every comparison with a NaN is false.
\<close>

type_synonym float32 = "32 word"

definition float_is_nan :: "float32 \<Rightarrow> bool" where
  "float_is_nan f = (0x7F800000 < (f AND 0x7FFFFFFF))"

definition float_key :: "float32 \<Rightarrow> int" where
  "float_key f = (if f AND 0x80000000 = 0 then uint (f AND 0x7FFFFFFF) else - uint (f AND 0x7FFFFFFF))"

definition float_less :: "float32 \<Rightarrow> float32 \<Rightarrow> bool" where
  "float_less a b = (\<not> float_is_nan a \<and> \<not> float_is_nan b \<and> float_key a < float_key b)"

text \<open>\<^verbatim>\<open>std::max(a, b)\<close> is \<^verbatim>\<open>(a < b) ? b : a\<close>.\<close>

definition std_max :: "float32 \<Rightarrow> float32 \<Rightarrow> float32" where
  "std_max a b = (if float_less a b then b else a)"

text \<open>
  \<^verbatim>\<open>std::numeric_limits<float>::lowest()\<close> is \<open>-FLT_MAX\<close>, the least finite value;
  negative infinity is another value, below it.
\<close>

definition float_lowest :: float32 where
  "float_lowest = 0xFF7FFFFF"

definition float_neg_infinity :: float32 where
  "float_neg_infinity = 0xFF800000"

text \<open>
  The loop of \<^verbatim>\<open>HandleEOSArray\<close> (lines 132-135), from the counter \<open>i\<close> on; the pointer
  \<^verbatim>\<open>logits\<close> is the offset of the row in \<^verbatim>\<open>batch_logits\<close>. The \<^verbatim>\<open>int32_t\<close> token ids
  are read as integers.
\<close>

function HandleEOSArray_loop ::
  "int buffer \<Rightarrow> int \<Rightarrow> int \<Rightarrow> int \<Rightarrow> float32 \<times> float32 buffer \<Rightarrow> float32 \<times> float32 buffer" where
  "HandleEOSArray_loop eos_token_ids eos_token_ids_count logits i (mx, batch_logits) =
     (if i < eos_token_ids_count then
        HandleEOSArray_loop eos_token_ids eos_token_ids_count logits (i + 1)
          (std_max mx (batch_logits (logits + eos_token_ids i)),
           batch_logits(logits + eos_token_ids i := float_lowest))
      else (mx, batch_logits))"
  by pat_completeness auto
termination
  by (relation "measure (\<lambda>(e, c, l, i, s). nat (c - i))") auto

declare HandleEOSArray_loop.simps [simp del]

text \<open>\<^verbatim>\<open>HandleEOSArray\<close> (lines 125-138).\<close>

fun HandleEOSArray ::
  "float32 buffer \<Rightarrow> int \<Rightarrow> int \<Rightarrow> int buffer \<Rightarrow> int \<Rightarrow> dim3 \<Rightarrow> dim3 \<times> dim3 \<Rightarrow> float32 buffer" where
  "HandleEOSArray batch_logits batch_beam_size vocab_size eos_token_ids eos_token_ids_count
       (blockDim_x, blockDim_y, blockDim_z)
       ((blockIdx_x, blockIdx_y, blockIdx_z), (threadIdx_x, threadIdx_y, threadIdx_z)) =
     (let index = int (blockIdx_x * blockDim_x + threadIdx_x) in
      if index \<ge> batch_beam_size then batch_logits
      else
        let logits = index * vocab_size;
            (mx, batch_logits') =
               HandleEOSArray_loop eos_token_ids eos_token_ids_count logits 0
                 (float_lowest, batch_logits) in
        batch_logits'(logits + eos_token_ids 0 := mx))"

text \<open>\<^verbatim>\<open>LaunchHandleEOSArray\<close> (lines 140-142).\<close>

definition LaunchHandleEOSArray ::
  "float32 buffer \<Rightarrow> int \<Rightarrow> int \<Rightarrow> int buffer \<Rightarrow> int \<Rightarrow> float32 buffer" where
  "LaunchHandleEOSArray batch_logits batch_beam_size vocab_size eos_token_ids eos_token_ids_count =
     launch (nat ((batch_beam_size + 255) sdiv 256), 1, 1) (256, 1, 1)
       (\<lambda>blockDim idx l. HandleEOSArray l batch_beam_size vocab_size eos_token_ids
          eos_token_ids_count blockDim idx)
       batch_logits"


section \<open>Beam cache indirection\<close>

text \<open>
  The three buffers of the indirection update. The \<^verbatim>\<open>int32_t\<close> beam indices are only
  copied, compared and reduced modulo the beam width: they are integers.
\<close>

record indirection_buffers =
  tgt_indir_cache :: "int buffer"
  src_indir_cache :: "int buffer"
  beam_ids :: "int buffer"

text \<open>
  \<^verbatim>\<open>UpdateDecoderMaskedMultiHeadAttentionCacheIndirectionKernel\<close> (lines 181-218). The
  thread divides by \<^verbatim>\<open>beam_width\<close> before the range test.
\<close>

fun UpdateDecoderMaskedMultiHeadAttentionCacheIndirectionKernel ::
  "indirection_buffers \<Rightarrow> int \<Rightarrow> int \<Rightarrow> int \<Rightarrow> int \<Rightarrow> int \<Rightarrow> dim3 \<Rightarrow> dim3 \<times> dim3
     \<Rightarrow> fault + indirection_buffers" where
  "UpdateDecoderMaskedMultiHeadAttentionCacheIndirectionKernel bufs batch_size beam_width
       input_seq_length max_seq_length current_length
       (blockDim_x, blockDim_y, blockDim_z)
       ((blockIdx_x, blockIdx_y, blockIdx_z), (threadIdx_x, threadIdx_y, threadIdx_z)) =
     (let time_step = int (threadIdx_x + blockIdx_x * blockDim_x);
          bb_id = int (threadIdx_y + blockIdx_y * blockDim_y) in
      if beam_width = 0 then Inl DivisionByZero
      else
        let batch_id = bb_id sdiv beam_width;
            beam_id = bb_id smod beam_width in
        if bb_id \<ge> beam_width * batch_size \<or> time_step \<ge> current_length then Inr bufs
        else
          let src_beam = beam_ids bufs (batch_id * beam_width + beam_id) smod beam_width;
              tgt_offset = batch_id * beam_width * max_seq_length + beam_id * max_seq_length
                             + time_step in
          if time_step < input_seq_length then
            Inr (bufs\<lparr>tgt_indir_cache := (tgt_indir_cache bufs)(tgt_offset := 0)\<rparr>)
          else if time_step = current_length - 1 then
            Inr (bufs\<lparr>tgt_indir_cache := (tgt_indir_cache bufs)(tgt_offset := beam_id)\<rparr>)
          else
            let src_offset = batch_id * beam_width * max_seq_length + src_beam * max_seq_length
                               + time_step in
            Inr (bufs\<lparr>tgt_indir_cache :=
                   (tgt_indir_cache bufs)(tgt_offset := src_indir_cache bufs src_offset)\<rparr>))"

text \<open>\<^verbatim>\<open>UpdateDecoderMaskedMultiHeadAttentionCacheIndirection\<close> (lines 220-239).\<close>

definition UpdateDecoderMaskedMultiHeadAttentionCacheIndirection ::
  "indirection_buffers \<Rightarrow> int \<Rightarrow> int \<Rightarrow> int \<Rightarrow> int \<Rightarrow> int \<Rightarrow> fault + indirection_buffers" where
  "UpdateDecoderMaskedMultiHeadAttentionCacheIndirection bufs batch_size beam_width
       input_seq_length max_seq_length current_length =
     (let block = (32, 1, 1);
          grid = (nat ((current_length + 32 - 1) sdiv 32), nat (batch_size * beam_width), 1) in
      launch_checked grid block
        (\<lambda>blockDim idx s. UpdateDecoderMaskedMultiHeadAttentionCacheIndirectionKernel s
           batch_size beam_width input_seq_length max_seq_length current_length blockDim idx)
        bufs)"


section \<open>Threads of a launch\<close>


lemma indices_1d: "indices (g, Suc 0, Suc 0) = map (\<lambda>ix. (ix, 0, 0)) [0..<g]"
  by (simp add: indices_def)

lemma set_indices: "set (indices (dx, dy, dz)) = {(ix, iy, iz). ix < dx \<and> iy < dy \<and> iz < dz}"
  by (force simp: indices_def)

lemma product_snoc: "List.product (xs @ [x]) ys = List.product xs ys @ map (Pair x) ys"
  by (induction xs) simp_all

text \<open>
  In a one-dimensional launch the global indices \<^verbatim>\<open>blockIdx.x * blockDim.x + threadIdx.x\<close>
  of the threads are the numbers below \<open>g * n\<close>, each once.
\<close>

lemma global_index_1d:
  "map (\<lambda>((bx, by, bz), (tx, ty, tz)). bx * n + tx) (grid_threads (g, Suc 0, Suc 0) (n, Suc 0, Suc 0))
     = [0..<g * n]"
proof (induction g)
  case 0
  show ?case by (simp add: grid_threads_def indices_def)
next
  case (Suc g)
  have "map (\<lambda>tx. g * n + tx) [0..<n] = [g * n..<g * n + n]"
    by (simp add: map_add_upt add.commute)
  moreover have "[0..<g * n + n] = [0..<g * n] @ [g * n..<g * n + n]"
    using upt_add_eq_append [of 0 "g * n" n] by simp
  ultimately show ?case
    using Suc by (simp add: grid_threads_def indices_1d product_snoc comp_def add.commute)
qed


section \<open>Position ids: the launch as a map\<close>

lemma sdiv_nonneg: "0 \<le> a \<Longrightarrow> 0 < b \<Longrightarrow> (a::int) sdiv b = a div b"
  by (simp add: signed_divide_int_def sgn_if)

lemma smod_nonneg: "0 \<le> a \<Longrightarrow> 0 < b \<Longrightarrow> (a::int) smod b = a mod b"
  by (simp add: signed_modulo_int_def sgn_if)

lemma launch_1d:
  assumes "\<And>bx tx. tx < n \<Longrightarrow> body (n, 1, 1) ((bx, 0, 0), (tx, 0, 0)) = f (bx * n + tx)"
  shows "launch (g, 1, 1) (n, 1, 1) body s = fold f [0..<g * n] s"
proof -
  have "fold (body (n, 1, 1)) (grid_threads (g, 1, 1) (n, 1, 1)) s
      = fold (f \<circ> (\<lambda>((bx, by, bz), (tx, ty, tz)). bx * n + tx)) (grid_threads (g, 1, 1) (n, 1, 1)) s"
    by (rule fold_cong) (use assms in \<open>auto simp: grid_threads_def set_indices\<close>)
  also have "\<dots> = fold f [0..<g * n] s"
    using global_index_1d [of n g] by (simp add: fold_map [symmetric])
  finally show ?thesis by (simp add: launch_def)
qed

lemma blocks_cover: "n \<le> int (nat ((n + 255) sdiv 256) * 256)"
proof (cases "0 \<le> n")
  case True
  then have "(n + 255) sdiv 256 = (n + 255) div 256" by (simp add: sdiv_nonneg)
  moreover have "0 \<le> (n + 255) div 256" using True by simp
  moreover have "n \<le> (n + 255) div 256 * 256"
    using pos_mod_bound [of 256 "n + 255"] by (simp add: minus_mod_eq_div_mult [symmetric])
  ultimately show ?thesis by simp
next
  case False
  then show ?thesis by simp
qed

lemma fold_increment:
  "fold (\<lambda>i p. if int i < n then p(int i := p (int i) + 1) else p) [0..<m] (p :: int \<Rightarrow> 'a::len word)
     = (\<lambda>c. if 0 \<le> c \<and> c < n \<and> c < int m then p c + 1 else p c)"
proof (induction m)
  case 0
  show ?case by auto
next
  case (Suc m)
  show ?case by (auto simp: Suc fun_eq_iff)
qed

lemma Launch_UpdatePositionIds_eq:
  "Launch_UpdatePositionIds positions n = (\<lambda>i. if 0 \<le> i \<and> i < n then positions i + 1 else positions i)"
proof -
  have "Launch_UpdatePositionIds positions n
      = fold (\<lambda>i p. if int i < n then p(int i := p (int i) + 1) else p)
          [0..<nat ((n + 255) sdiv 256) * 256] positions"
    unfolding Launch_UpdatePositionIds_def by (rule launch_1d) (simp only: UpdatePositionIds.simps Let_def)
  then show ?thesis
    using blocks_cover [of n] by (auto simp: fold_increment fun_eq_iff)
qed

lemma Launch_UpdatePositionIds_funpow:
  "((\<lambda>p. Launch_UpdatePositionIds p n) ^^ k) positions
     = (\<lambda>i. if 0 \<le> i \<and> i < n then positions i + of_nat k else positions i)"
  by (induction k) (auto simp: Launch_UpdatePositionIds_eq fun_eq_iff)


section \<open>Threads that store into single cells\<close>

lemma run_threads_Inr:
  "(\<And>t s. t \<in> set ts \<Longrightarrow> body t s = Inr (f t s)) \<Longrightarrow> run_threads body ts s = Inr (fold f ts s)"
  by (induction ts arbitrary: s) simp_all

lemma run_threads_map: "run_threads body (map h ts) s = run_threads (body \<circ> h) ts s"
  by (induction ts arbitrary: s) (simp_all split: sum.splits)

lemma run_threads_cong:
  "(\<And>t s. t \<in> set ts \<Longrightarrow> body t s = body' t s) \<Longrightarrow> run_threads body ts s = run_threads body' ts s"
  by (induction ts arbitrary: s) (simp_all split: sum.splits)

lemma fold_writes_other:
  assumes "\<And>t b. t \<in> set ts \<Longrightarrow> f t b = (case w t of None \<Rightarrow> b | Some (off, v) \<Rightarrow> b(off := v))"
    and "\<And>t v. t \<in> set ts \<Longrightarrow> w t \<noteq> Some (c, v)"
  shows "fold f ts b c = b c"
  using assms
proof (induction ts arbitrary: b)
  case Nil
  show ?case by simp
next
  case (Cons t ts)
  have "fold f ts (f t b) c = f t b c"
    using Cons.prems by (intro Cons.IH) auto
  also have "f t b c = b c"
    using Cons.prems(1) [of t b] Cons.prems(2) [of t] by (auto split: option.splits)
  finally show ?case by simp
qed

lemma fold_writes_value:
  assumes "\<And>t b. t \<in> set ts \<Longrightarrow> f t b = (case w t of None \<Rightarrow> b | Some (off, v) \<Rightarrow> b(off := v))"
    and "t \<in> set ts" and "w t = Some (c, v)"
    and "\<And>t' v'. t' \<in> set ts \<Longrightarrow> w t' = Some (c, v') \<Longrightarrow> v' = v"
  shows "fold f ts b c = v"
  using assms
proof (induction ts arbitrary: b t)
  case Nil
  then show ?case by simp
next
  case (Cons u ts)
  have step: "\<And>t b. t \<in> set ts \<Longrightarrow> f t b = (case w t of None \<Rightarrow> b | Some (off, v) \<Rightarrow> b(off := v))"
    using Cons.prems(1) by simp
  have same: "v' = v" if "t' \<in> set ts" "w t' = Some (c, v')" for t' v'
    using that Cons.prems(4) [of t' v'] by simp
  show ?case
  proof (cases "\<exists>t'\<in>set ts. \<exists>v'. w t' = Some (c, v')")
    case True
    then obtain t' v' where t': "t' \<in> set ts" "w t' = Some (c, v')" by blast
    then have tv: "w t' = Some (c, v)" using same by blast
    have "fold f ts (f u b) c = v"
      by (rule Cons.IH [OF step t'(1) tv same])
    then show ?thesis by simp
  next
    case False
    then have u: "u = t" using Cons.prems(2,3) by auto
    from False have "fold f ts (f u b) c = f u b c"
      using step by (intro fold_writes_other [where w = w]) auto
    also have "f u b c = v"
      using Cons.prems(1) [of u b] Cons.prems(3) u by simp
    finally show ?thesis by simp
  qed
qed


section \<open>Attention mask: the two launches\<close>

lemma launch_checked_1d:
  assumes "\<And>bx tx. tx < n \<Longrightarrow> body (n, 1, 1) ((bx, 0, 0), (tx, 0, 0)) = f (bx * n + tx)"
  shows "launch_checked (g, 1, 1) (n, 1, 1) body s = run_threads f [0..<g * n] s"
proof -
  have "run_threads (body (n, 1, 1)) (grid_threads (g, 1, 1) (n, 1, 1)) s
      = run_threads (f \<circ> (\<lambda>((bx, by, bz), (tx, ty, tz)). bx * n + tx)) (grid_threads (g, 1, 1) (n, 1, 1)) s"
    by (rule run_threads_cong) (use assms in \<open>auto simp: grid_threads_def set_indices\<close>)
  also have "\<dots> = run_threads f [0..<g * n] s"
    using global_index_1d [of n g] by (simp add: run_threads_map [symmetric])
  finally show ?thesis by (simp add: launch_checked_def)
qed

lemma fold_invariant:
  "(\<And>t b. t \<in> set ts \<Longrightarrow> P b \<Longrightarrow> P (f t b)) \<Longrightarrow> P b \<Longrightarrow> P (fold f ts b)"
  by (induction ts arbitrary: b) simp_all

lemma row_col_unique:
  fixes i j L :: int
  assumes "0 \<le> j" "j < L" "0 \<le> j'" "j' < L" "i * L + j = i' * L + j'"
  shows "i = i' \<and> j = j'"
proof -
  have "(i * L + j) div L = i"
    by (rule int_div_pos_eq [where r = j]) (use assms in \<open>simp_all add: mult.commute\<close>)
  moreover have "(i' * L + j') div L = i'"
    by (rule int_div_pos_eq [where r = j']) (use assms in \<open>simp_all add: mult.commute\<close>)
  ultimately have "i = i'" using assms(5) by simp
  then show ?thesis using assms(5) by simp
qed

lemma update_only_eq:
  "Launch_UpdateAttentionMask mask_data old_mask_data batch_beam_size current_length max_length True
     = Inr (\<lambda>offset. if \<exists>i. 0 \<le> i \<and> i < batch_beam_size \<and> offset = i * max_length + current_length
                      then 1 else mask_data offset)"
proof -
  define f where "f = (\<lambda>(i::nat) (m :: int \<Rightarrow> 'a word).
     if int i < batch_beam_size then m(int i * max_length + current_length := 1) else m)"
  define w where "w = (\<lambda>i::nat. if int i < batch_beam_size
     then Some (int i * max_length + current_length, 1 :: 'a word) else None)"
  have fw: "f t b = (case w t of None \<Rightarrow> b | Some (off, v) \<Rightarrow> b(off := v))" for t b
    by (simp add: f_def w_def)
  have "launch (nat batch_beam_size, 1, 1) (1, 1, 1)
          (\<lambda>blockDim idx m. UpdateAttentionMask m batch_beam_size current_length max_length blockDim idx)
          mask_data
      = fold f [0..<nat batch_beam_size * 1] mask_data"
    by (rule launch_1d) (simp add: f_def Let_def)
  moreover have "fold f [0..<nat batch_beam_size] mask_data offset
      = (if \<exists>i. 0 \<le> i \<and> i < batch_beam_size \<and> offset = i * max_length + current_length
         then 1 else mask_data offset)" for offset
  proof (cases "\<exists>i. 0 \<le> i \<and> i < batch_beam_size \<and> offset = i * max_length + current_length")
    case True
    then obtain i where i: "0 \<le> i" "i < batch_beam_size" "offset = i * max_length + current_length"
      by blast
    have "fold f [0..<nat batch_beam_size] mask_data offset = 1"
    proof (rule fold_writes_value [where w = w and t = "nat i"])
      show "nat i \<in> set [0..<nat batch_beam_size]" using i by simp
      show "w (nat i) = Some (offset, 1)" using i by (simp add: w_def)
    qed (auto simp: fw w_def split: if_splits)
    with True show ?thesis by simp
  next
    case False
    have "fold f [0..<nat batch_beam_size] mask_data offset = mask_data offset"
    proof (rule fold_writes_other [where w = w])
      fix t v assume "t \<in> set [0..<nat batch_beam_size]"
      then show "w t \<noteq> Some (offset, v)"
        using False by (auto simp: w_def)
    qed (simp add: fw)
    then show ?thesis by (simp only: False if_False)
  qed
  ultimately show ?thesis
    by (simp add: Launch_UpdateAttentionMask_def fun_eq_iff)
qed


lemma copy_path_eq:
  assumes cl: "1 \<le> current_length" "current_length \<le> max_length"
  shows "\<exists>m'. Launch_UpdateAttentionMask mask_data old_mask_data batch_beam_size current_length
                 max_length False = Inr m' \<and>
              (\<forall>i j. 0 \<le> j \<and> j < max_length \<longrightarrow>
                 m' (i * max_length + j)
                   = (if 0 \<le> i \<and> i < batch_beam_size \<and> j < current_length
                      then (if j < current_length - 1
                            then old_mask_data (i * (current_length - 1) + j) else 1)
                      else mask_data (i * max_length + j)))"
proof -
  define g where "g = nat ((batch_beam_size * max_length + 255) sdiv 256)"
  define w where "w = (\<lambda>t::nat.
     if int t div current_length < batch_beam_size then
       Some (int t div current_length * max_length + int t mod current_length,
             if int t mod current_length < current_length - 1
             then old_mask_data (int t div current_length * (current_length - 1) + int t mod current_length)
             else (1 :: 'a word))
     else None)"
  define f where "f = (\<lambda>(t::nat) (b :: int \<Rightarrow> 'a word).
     case w t of None \<Rightarrow> b | Some (off, v) \<Rightarrow> b(off := v))"
  define F where "F = (\<lambda>t m. CopyAndUpdateAttentionMask m old_mask_data batch_beam_size
     current_length max_length (256, 1, 1) ((t div 256, 0, 0), (t mod 256, 0, 0)))"
  have pos: "0 < current_length" using cl by simp
  have "launch_checked (g, 1, 1) (256, 1, 1)
          (\<lambda>blockDim idx m. CopyAndUpdateAttentionMask m old_mask_data batch_beam_size
             current_length max_length blockDim idx) mask_data
      = run_threads F [0..<g * 256] mask_data"
    by (rule launch_checked_1d) (simp add: F_def)
  also have "\<dots> = Inr (fold f [0..<g * 256] mask_data)"
  proof (rule run_threads_Inr)
    fix t :: nat and s :: "int \<Rightarrow> 'a word"
    have "t div 256 * 256 + t mod 256 = t" by simp
    then show "F t s = Inr (f t s)"
      using pos by (simp add: F_def f_def w_def Let_def sdiv_nonneg smod_nonneg)
  qed
  finally have run: "Launch_UpdateAttentionMask mask_data old_mask_data batch_beam_size current_length
      max_length False = Inr (fold f [0..<g * 256] mask_data)"
    by (simp add: Launch_UpdateAttentionMask_def g_def)
  have written: "fold f [0..<g * 256] mask_data (i * max_length + j)
      = (if j < current_length - 1 then old_mask_data (i * (current_length - 1) + j) else 1)"
    if i: "0 \<le> i" "i < batch_beam_size" and j: "0 \<le> j" "j < current_length" for i j
  proof -
    let ?t = "nat (i * current_length + j)"
    let ?v = "if j < current_length - 1 then old_mask_data (i * (current_length - 1) + j) else 1"
    have ij: "0 \<le> i * current_length + j" using i j pos by simp
    have dm: "(i * current_length + j) div current_length = i"
      "(i * current_length + j) mod current_length = j"
      using j pos by simp_all
    have "(i + 1) * current_length \<le> batch_beam_size * current_length"
      using i pos by (intro mult_right_mono) simp_all
    moreover have "batch_beam_size * current_length \<le> batch_beam_size * max_length"
      using i cl by (intro mult_left_mono) simp_all
    moreover have "batch_beam_size * max_length \<le> int (g * 256)"
      unfolding g_def by (rule blocks_cover)
    ultimately have lt: "i * current_length + j < int (g * 256)"
      using j by (simp add: algebra_simps)
    show ?thesis
    proof (rule fold_writes_value [where w = w and t = ?t])
      show "?t \<in> set [0..<g * 256]" using lt ij by simp
      show "w ?t = Some (i * max_length + j, ?v)"
        using ij i dm by (simp add: w_def)
    next
      fix t' v' assume "t' \<in> set [0..<g * 256]" and w': "w t' = Some (i * max_length + j, v')"
      let ?i' = "int t' div current_length" and ?j' = "int t' mod current_length"
      from w' have eq: "?i' * max_length + ?j' = i * max_length + j"
        and v': "v' = (if ?j' < current_length - 1
                       then old_mask_data (?i' * (current_length - 1) + ?j') else 1)"
        by (auto simp: w_def split: if_splits)
      have "0 \<le> ?j'" "?j' < max_length" using pos cl
        by (simp_all add: less_le_trans [OF pos_mod_bound])
      with eq j cl have "?i' = i \<and> ?j' = j"
        by (intro row_col_unique [of ?j' max_length j]) simp_all
      then show "v' = ?v" using v' by simp
    qed (simp add: f_def)
  qed
  have other: "fold f [0..<g * 256] mask_data (i * max_length + j) = mask_data (i * max_length + j)"
    if j: "0 \<le> j" "j < max_length" and out: "\<not> (0 \<le> i \<and> i < batch_beam_size \<and> j < current_length)"
    for i j
  proof (rule fold_writes_other [where w = w])
    fix t v assume "t \<in> set [0..<g * 256]"
    let ?i' = "int t div current_length" and ?j' = "int t mod current_length"
    show "w t \<noteq> Some (i * max_length + j, v)"
    proof
      assume w': "w t = Some (i * max_length + j, v)"
      then have eq: "?i' * max_length + ?j' = i * max_length + j" and i': "?i' < batch_beam_size"
        by (auto simp: w_def split: if_splits)
      have j': "0 \<le> ?j'" "?j' < current_length" "0 \<le> ?i'" using pos
        by (simp_all add: pos_imp_zdiv_nonneg_iff)
      with eq j cl have "?i' = i \<and> ?j' = j"
        by (intro row_col_unique [of ?j' max_length j]) simp_all
      with i' j' out show False by simp
    qed
  qed (simp add: f_def)
  from run written other show ?thesis by simp
qed


section \<open>Position advance\<close>

text \<open>
  Claim C8 (position advance). One call of \<^verbatim>\<open>Launch_UpdatePositionIds\<close> on a buffer of
  \<open>n\<close> positions adds exactly 1 to each of the entries \<open>0 \<le> i < n\<close> and changes no other
  entry; \<open>k\<close> successive calls add \<open>k\<close>. This holds for the 32-bit and for the 64-bit
  instantiation. The sum is the element type's own: at the greatest value the device wraps
  around (C++ leaves it undefined).
\<close>

theorem AdvancePositions_adds_one:
  "Launch_UpdatePositionIds_int32 positions n
     = (\<lambda>i. if 0 \<le> i \<and> i < n then positions i + 1 else positions i) \<and>
   ((\<lambda>p. Launch_UpdatePositionIds_int32 p n) ^^ k) positions
     = (\<lambda>i. if 0 \<le> i \<and> i < n then positions i + of_nat k else positions i) \<and>
   Launch_UpdatePositionIds_int64 positions64 n
     = (\<lambda>i. if 0 \<le> i \<and> i < n then positions64 i + 1 else positions64 i) \<and>
   ((\<lambda>p. Launch_UpdatePositionIds_int64 p n) ^^ k) positions64
     = (\<lambda>i. if 0 \<le> i \<and> i < n then positions64 i + of_nat k else positions64 i)"
  unfolding Launch_UpdatePositionIds_int32_def Launch_UpdatePositionIds_int64_def
  by (intro conjI Launch_UpdatePositionIds_eq Launch_UpdatePositionIds_funpow)

theorem AdvancePositions_adds_one_witness:
  "Launch_UpdatePositionIds_int32 (\<lambda>i. if i = 1 then 41 else 7) 2 1 = 42 \<and>
   Launch_UpdatePositionIds_int32 (\<lambda>i. if i = 1 then 41 else 7) 2 2 = 7 \<and>
   ((\<lambda>p. Launch_UpdatePositionIds_int32 p 2) ^^ 3) (\<lambda>i. if i = 1 then 41 else 7) 0 = 10 \<and>
   Launch_UpdatePositionIds_int64 (\<lambda>i. 0x7FFFFFFF) 300 299 = 0x80000000 \<and>
   ((\<lambda>p. Launch_UpdatePositionIds_int64 p 300) ^^ 5) (\<lambda>i. 0) 256 = 5"
proof -
  note t32 = AdvancePositions_adds_one [of "\<lambda>i. if i = 1 then 41 else 7" 2 3 "\<lambda>i. 0" ]
  note t64 = AdvancePositions_adds_one [of "\<lambda>i. 0" 300 5 "\<lambda>i. 0x7FFFFFFF"]
  note t64' = AdvancePositions_adds_one [of "\<lambda>i. 0" 300 5 "\<lambda>i. 0"]
  show ?thesis
    by (simp add: t32 [THEN conjunct1] t32 [THEN conjunct2, THEN conjunct1]
        t64 [THEN conjunct2, THEN conjunct2, THEN conjunct1]
        t64' [THEN conjunct2, THEN conjunct2, THEN conjunct2])
qed

section \<open>Attention mask maintenance\<close>

text \<open>
  Claim C7 (fast path, frame). With \<open>update_only\<close> and \<open>0 \<le> current_length < max_length\<close>,
  the call returns, and in the mask viewed as rows of width \<open>max_length\<close> the entry of
  column \<open>current_length\<close> is 1 in every row \<open>0 \<le> i < batch_beam_size\<close>, while every
  other entry (the other columns of these rows, and every column of every other row)
  keeps its value.
\<close>

theorem ExtendMask_update_only_frame:
  assumes "0 \<le> current_length" and "current_length < max_length"
  shows "\<exists>m'. Launch_UpdateAttentionMask mask_data old_mask_data batch_beam_size current_length
                 max_length True = Inr m' \<and>
              (\<forall>i j. 0 \<le> j \<and> j < max_length \<longrightarrow>
                 m' (i * max_length + j)
                   = (if 0 \<le> i \<and> i < batch_beam_size \<and> j = current_length then 1
                      else mask_data (i * max_length + j)))"
proof -
  have "(\<exists>i'. 0 \<le> i' \<and> i' < batch_beam_size \<and> i * max_length + j = i' * max_length + current_length)
      \<longleftrightarrow> (0 \<le> i \<and> i < batch_beam_size \<and> j = current_length)"
    if "0 \<le> j" "j < max_length" for i j
    using row_col_unique [of j max_length current_length i] that assms by blast
  then show ?thesis
    by (simp add: update_only_eq)
qed

theorem ExtendMask_update_only_frame_witness:
  "(0::int) \<le> 1 \<and> (1::int) < 3 \<and>
   (\<exists>m'. Launch_UpdateAttentionMask (\<lambda>_. 0) (\<lambda>_. 0) 2 1 3 True = Inr m' \<and>
      m' 1 = (1 :: 32 word) \<and> m' 4 = 1 \<and> m' 0 = 0 \<and> m' 2 = 0 \<and> m' 5 = 0 \<and> m' 7 = 0)"
proof -
  obtain m' :: "int \<Rightarrow> 32 word"
    where run: "Launch_UpdateAttentionMask (\<lambda>_. 0) (\<lambda>_. 0) 2 1 3 True = Inr m'"
      and cells: "\<And>i j. 0 \<le> j \<and> j < 3 \<Longrightarrow>
        m' (i * 3 + j) = (if 0 \<le> i \<and> i < 2 \<and> j = 1 then 1 else 0)"
    using ExtendMask_update_only_frame [of 1 3 "\<lambda>_. 0" "\<lambda>_. 0" 2] by auto
  have "m' 1 = 1" "m' 4 = 1" "m' 0 = 0" "m' 2 = 0" "m' 5 = 0" "m' 7 = 0"
    using cells [of 1 0] cells [of 1 1] cells [of 0 0] cells [of 2 0] cells [of 2 1] cells [of 1 2]
    by simp_all
  with run show ?thesis by simp
qed

text \<open>
  Claim C10 (the fast path is idempotent). For every mask buffer and all arguments, the call
  with \<open>update_only\<close> returns a mask on which the same call returns that very mask
  again: calling twice gives what calling once gives.
\<close>

theorem ExtendMask_update_only_idempotent:
  "\<exists>m'. Launch_UpdateAttentionMask mask_data old_mask_data batch_beam_size current_length
            max_length True = Inr m' \<and>
         Launch_UpdateAttentionMask m' old_mask_data batch_beam_size current_length
            max_length True = Inr m'"
proof -
  let ?m = "\<lambda>offset. if \<exists>i. 0 \<le> i \<and> i < batch_beam_size \<and> offset = i * max_length + current_length
                     then 1 else mask_data offset"
  have "Launch_UpdateAttentionMask mask_data old_mask_data batch_beam_size current_length
          max_length True = Inr ?m"
    by (rule update_only_eq)
  moreover have "Launch_UpdateAttentionMask ?m old_mask_data batch_beam_size current_length
          max_length True = Inr ?m"
    by (subst update_only_eq) (rule arg_cong [where f = Inr], rule ext, auto)
  ultimately show ?thesis by blast
qed

text \<open>
  Claim C5 (grow path). Without \<open>update_only\<close> and with
  \<open>1 \<le> current_length \<le> max_length\<close>, the call returns, and for every row
  \<open>0 \<le> i < batch_beam_size\<close> the new mask (rows of width \<open>max_length\<close>) holds in the columns
  \<open>j < current_length - 1\<close> the entries of the old mask (rows of width
  \<open>current_length - 1\<close>) and in column \<open>current_length - 1\<close> the value 1.
\<close>

theorem ExtendMask_grow_copies:
  assumes "1 \<le> current_length" and "current_length \<le> max_length"
  shows "\<exists>m'. Launch_UpdateAttentionMask mask_data old_mask_data batch_beam_size current_length
                 max_length False = Inr m' \<and>
              (\<forall>i j. 0 \<le> i \<and> i < batch_beam_size \<and> 0 \<le> j \<and> j < current_length \<longrightarrow>
                 m' (i * max_length + j)
                   = (if j < current_length - 1
                      then old_mask_data (i * (current_length - 1) + j) else 1))"
proof -
  obtain m' where run: "Launch_UpdateAttentionMask mask_data old_mask_data batch_beam_size
      current_length max_length False = Inr m'"
    and cells: "\<And>i j. 0 \<le> j \<and> j < max_length \<Longrightarrow>
       m' (i * max_length + j)
         = (if 0 \<le> i \<and> i < batch_beam_size \<and> j < current_length
            then (if j < current_length - 1
                  then old_mask_data (i * (current_length - 1) + j) else 1)
            else mask_data (i * max_length + j))"
    using copy_path_eq [OF assms, of mask_data old_mask_data batch_beam_size] by auto
  have "m' (i * max_length + j)
      = (if j < current_length - 1 then old_mask_data (i * (current_length - 1) + j) else 1)"
    if "0 \<le> i \<and> i < batch_beam_size \<and> 0 \<le> j \<and> j < current_length" for i j
    using cells [of j i] that assms by simp
  with run show ?thesis by blast
qed

theorem ExtendMask_grow_copies_witness:
  "(1::int) \<le> 3 \<and> (3::int) \<le> 4 \<and>
   (\<exists>m'. Launch_UpdateAttentionMask (\<lambda>_. 9) (\<lambda>k. word_of_int (10 + k)) 2 3 4 False = Inr m' \<and>
      m' 0 = (10 :: 32 word) \<and> m' 1 = 11 \<and> m' 2 = 1 \<and>
      m' 4 = 12 \<and> m' 5 = 13 \<and> m' 6 = 1)"
proof -
  have a: "(1::int) \<le> 3" and b: "(3::int) \<le> 4" by simp_all
  obtain m' :: "int \<Rightarrow> 32 word"
    where run: "Launch_UpdateAttentionMask (\<lambda>_. 9) (\<lambda>k. word_of_int (10 + k)) 2 3 4 False = Inr m'"
      and cells: "\<And>i j. 0 \<le> i \<and> i < 2 \<and> 0 \<le> j \<and> j < 3 \<Longrightarrow>
        m' (i * 4 + j) = (if j < 3 - 1 then word_of_int (10 + (i * (3 - 1) + j)) else 1)"
    using ExtendMask_grow_copies [OF a b, of "\<lambda>_. 9" "\<lambda>k. word_of_int (10 + k)" 2] by auto
  have "m' 0 = 10" "m' 1 = 11" "m' 2 = 1" "m' 4 = 12" "m' 5 = 13" "m' 6 = 1"
    using cells [of 0 0] cells [of 0 1] cells [of 0 2] cells [of 1 0] cells [of 1 1] cells [of 1 2]
    by simp_all
  with run show ?thesis by simp
qed

text \<open>
  Claim C6 (mask monotonicity). Let \<open>current_length\<close> be in range for the mode, and let
  \<open>i\<close> be any row. In the grow mode, if \<open>i\<close> is a row of the batch, let the old mask's
  row \<open>i\<close> consist of 1s over its \<open>current_length - 1\<close> valid entries; nothing is asked
  of the other rows. Then the call returns, and every entry of row \<open>i\<close> of the mask
  buffer that held 1 before the call holds 1 after it. In the grow mode, moreover, the
  first \<open>current_length\<close> entries of such a row \<open>i\<close> of the new mask are 1, and in every
  row of the batch (with a prefix of 1s or not) an entry that was 1 in the old mask is 1
  in the new mask. No entry goes from 1 to 0.
\<close>

theorem ExtendMask_monotone:
  assumes range: "if update_only then 0 \<le> current_length \<and> current_length < max_length
                  else 1 \<le> current_length \<and> current_length \<le> max_length"
    and prefix: "\<not> update_only \<and> 0 \<le> i \<and> i < batch_beam_size \<longrightarrow>
       (\<forall>j. 0 \<le> j \<and> j < current_length - 1 \<longrightarrow>
          old_mask_data (i * (current_length - 1) + j) = 1)"
  shows "\<exists>m'. Launch_UpdateAttentionMask mask_data old_mask_data batch_beam_size current_length
                 max_length update_only = Inr m' \<and>
              (\<forall>j. 0 \<le> j \<and> j < max_length \<and> mask_data (i * max_length + j) = 1 \<longrightarrow>
                 m' (i * max_length + j) = 1) \<and>
              (\<not> update_only \<and> 0 \<le> i \<and> i < batch_beam_size \<longrightarrow>
                 (\<forall>j. 0 \<le> j \<and> j < current_length \<longrightarrow> m' (i * max_length + j) = 1)) \<and>
              (\<not> update_only \<longrightarrow>
                 (\<forall>i' j. 0 \<le> i' \<and> i' < batch_beam_size \<and> 0 \<le> j \<and> j < current_length - 1 \<and>
                     old_mask_data (i' * (current_length - 1) + j) = 1 \<longrightarrow>
                   m' (i' * max_length + j) = 1))"
proof (cases update_only)
  case True
  then show ?thesis by (simp add: update_only_eq)
next
  case False
  with range have cl: "1 \<le> current_length" "current_length \<le> max_length" by simp_all
  obtain m' where run: "Launch_UpdateAttentionMask mask_data old_mask_data batch_beam_size
      current_length max_length False = Inr m'"
    and cells: "\<And>i j. 0 \<le> j \<and> j < max_length \<Longrightarrow>
       m' (i * max_length + j)
         = (if 0 \<le> i \<and> i < batch_beam_size \<and> j < current_length
            then (if j < current_length - 1
                  then old_mask_data (i * (current_length - 1) + j) else 1)
            else mask_data (i * max_length + j))"
    using copy_path_eq [OF cl, of mask_data old_mask_data batch_beam_size] by auto
  have ones: "m' (i * max_length + j) = 1"
    if "0 \<le> i \<and> i < batch_beam_size" "0 \<le> j \<and> j < current_length" for j
    using cells [of j i] that cl prefix False by simp
  have mono: "m' (i * max_length + j) = 1"
    if "0 \<le> j \<and> j < max_length \<and> mask_data (i * max_length + j) = 1" for j
  proof (cases "0 \<le> i \<and> i < batch_beam_size \<and> j < current_length")
    case True
    then show ?thesis using ones [of j] that by simp
  next
    case False
    then have "m' (i * max_length + j) = mask_data (i * max_length + j)"
      using cells [of j i] that by (simp only: if_False)
    then show ?thesis using that by simp
  qed
  have copied: "m' (i' * max_length + j) = 1"
    if "0 \<le> i' \<and> i' < batch_beam_size \<and> 0 \<le> j \<and> j < current_length - 1 \<and>
        old_mask_data (i' * (current_length - 1) + j) = 1" for i' j
    using cells [of j i'] that cl by simp
  show ?thesis
    using run ones mono copied False by (intro exI [of _ m']) simp
qed

text \<open>
  A batch of two rows grown to length 3, the old rows being \<open>[1, 1]\<close> and the padded
  \<open>[0, 1]\<close>: row 0 is all 1s afterwards and its entry of column 3, 1 before, stays 1;
  in the padded row 1 the entry that was 1 is 1. The fast path keeps the 1s as well.
\<close>

theorem ExtendMask_monotone_witness:
  "(\<exists>m'. Launch_UpdateAttentionMask (\<lambda>k. if k = 0 \<or> k = 3 then 1 else 0) (\<lambda>_. 0) 2 1 3 True
            = Inr m' \<and> m' 0 = (1 :: 32 word) \<and> m' 3 = 1) \<and>
   (\<exists>m'. Launch_UpdateAttentionMask (\<lambda>k. if k = 3 then 1 else 0) (\<lambda>k. if k = 2 then 0 else 1)
            2 3 4 False
            = Inr m' \<and> m' 3 = (1 :: 32 word) \<and> m' 0 = 1 \<and> m' 1 = 1 \<and> m' 2 = 1 \<and> m' 5 = 1)"
proof -
  have "\<exists>m'. Launch_UpdateAttentionMask (\<lambda>k. if k = 0 \<or> k = 3 then 1 else 0) (\<lambda>_. 0) 2 1 3 True
            = Inr m' \<and> m' 0 = (1 :: 32 word) \<and> m' 3 = 1"
  proof -
    obtain m' :: "int \<Rightarrow> 32 word"
      where run: "Launch_UpdateAttentionMask (\<lambda>k. if k = 0 \<or> k = 3 then 1 else 0) (\<lambda>_. 0) 2 1 3 True
                    = Inr m'"
        and r0: "\<And>j. 0 \<le> j \<and> j < 3 \<and> (if 0 * 3 + j = 0 \<or> 0 * 3 + j = 3 then 1 else 0) = (1 :: 32 word)
                   \<Longrightarrow> m' (0 * 3 + j) = 1"
      using ExtendMask_monotone [of True 1 3 0 2 "\<lambda>_. 0"
          "\<lambda>k. if k = 0 \<or> k = 3 then 1 else 0 :: 32 word"]
      by auto
    obtain m'' :: "int \<Rightarrow> 32 word"
      where run': "Launch_UpdateAttentionMask (\<lambda>k. if k = 0 \<or> k = 3 then 1 else 0) (\<lambda>_. 0) 2 1 3 True
                    = Inr m''"
        and r1: "\<And>j. 0 \<le> j \<and> j < 3 \<and> (if 1 * 3 + j = 0 \<or> 1 * 3 + j = 3 then 1 else 0) = (1 :: 32 word)
                   \<Longrightarrow> m'' (1 * 3 + j) = 1"
      using ExtendMask_monotone [of True 1 3 1 2 "\<lambda>_. 0"
          "\<lambda>k. if k = 0 \<or> k = 3 then 1 else 0 :: 32 word"]
      by auto
    have "m'' = m'" using run run' by simp
    then have "m' 0 = 1" "m' 3 = 1" using r0 [of 0] r1 [of 0] by simp_all
    with run show ?thesis by simp
  qed
  moreover have "\<exists>m'. Launch_UpdateAttentionMask (\<lambda>k. if k = 3 then 1 else 0)
            (\<lambda>k. if k = 2 then 0 else 1) 2 3 4 False
            = Inr m' \<and> m' 3 = (1 :: 32 word) \<and> m' 0 = 1 \<and> m' 1 = 1 \<and> m' 2 = 1 \<and> m' 5 = 1"
  proof -
    obtain m' :: "int \<Rightarrow> 32 word"
      where run: "Launch_UpdateAttentionMask (\<lambda>k. if k = 3 then 1 else 0)
                    (\<lambda>k. if k = 2 then 0 else 1) 2 3 4 False = Inr m'"
        and mono: "\<And>j. 0 \<le> j \<and> j < 4 \<and> (if 0 * 4 + j = 3 then 1 else 0) = (1 :: 32 word)
                     \<Longrightarrow> m' (0 * 4 + j) = 1"
        and ones: "\<And>j. 0 \<le> j \<and> j < 3 \<Longrightarrow> m' (0 * 4 + j) = 1"
        and copied: "\<And>i' j. 0 \<le> i' \<and> i' < 2 \<and> 0 \<le> j \<and> j < 3 - 1 \<and>
                        (if i' * (3 - 1) + j = 2 then 0 else 1) = (1 :: 32 word)
                     \<Longrightarrow> m' (i' * 4 + j) = 1"
      using ExtendMask_monotone [of False 3 4 0 2 "\<lambda>k. if k = 2 then 0 else 1"
          "\<lambda>k. if k = 3 then 1 else 0 :: 32 word"]
      by auto
    have "m' 3 = 1" "m' 0 = 1" "m' 1 = 1" "m' 2 = 1" "m' 5 = 1"
      using mono [of 3] ones [of 0] ones [of 1] ones [of 2] copied [of 1 1] by simp_all
    with run show ?thesis by simp
  qed
  ultimately show ?thesis by simp
qed


section \<open>Beam cache indirection: what the launch stores\<close>

lemma int_div_less:
  fixes a b W :: int
  assumes "0 < W" and "a < b * W"
  shows "a div W < b"
proof -
  have "a div W * W \<le> a" using assms(1) by (simp add: minus_mod_eq_div_mult [symmetric])
  with assms(2) have "a div W * W < b * W" by simp
  with assms(1) show ?thesis by (simp add: mult_less_cancel_right)
qed

lemma indirection_run:
  fixes bufs :: indirection_buffers
  assumes body: "\<And>t tg. t \<in> set ts \<Longrightarrow>
     body t (bufs\<lparr>tgt_indir_cache := tg\<rparr>) = Inr (bufs\<lparr>tgt_indir_cache := f t tg\<rparr>)"
  shows "run_threads body ts (bufs\<lparr>tgt_indir_cache := tg\<rparr>)
           = Inr (bufs\<lparr>tgt_indir_cache := fold f ts tg\<rparr>)"
  using assms by (induction ts arbitrary: tg) simp_all

lemma indirection_eq:
  assumes W: "0 < beam_width"
  shows "\<exists>tgt'. UpdateDecoderMaskedMultiHeadAttentionCacheIndirection bufs batch_size beam_width
                    input_seq_length max_seq_length current_length
                  = Inr (bufs\<lparr>tgt_indir_cache := tgt'\<rparr>) \<and>
     (\<forall>offset. tgt' offset \<noteq> tgt_indir_cache bufs offset \<longrightarrow>
        (\<exists>b w t. 0 \<le> b \<and> b < batch_size \<and> 0 \<le> w \<and> w < beam_width \<and> 0 \<le> t \<and> t < current_length \<and>
           offset = b * beam_width * max_seq_length + w * max_seq_length + t)) \<and>
     (current_length \<le> max_seq_length \<longrightarrow>
        (\<forall>b w t. 0 \<le> b \<and> b < batch_size \<and> 0 \<le> w \<and> w < beam_width \<and> 0 \<le> t \<and> t < current_length \<longrightarrow>
           tgt' (b * beam_width * max_seq_length + w * max_seq_length + t)
             = (if t < input_seq_length then 0
                else if t = current_length - 1 then w
                else src_indir_cache bufs
                       (b * beam_width * max_seq_length
                          + (beam_ids bufs (b * beam_width + w) smod beam_width) * max_seq_length + t))))"
proof -
  let ?L = max_seq_length and ?W = beam_width
  define G where "G = nat ((current_length + 32 - 1) sdiv 32)"
  define threads where "threads = grid_threads (G, nat (batch_size * beam_width), 1) (32, 1, 1)"
  define val where "val = (\<lambda>b w t.
     if t < input_seq_length then 0
     else if t = current_length - 1 then w
     else src_indir_cache bufs (b * ?W * ?L + (beam_ids bufs (b * ?W + w) smod ?W) * ?L + t))"
  define wr where "wr = (\<lambda>((bx :: nat, by :: nat, bz :: nat), (tx :: nat, ty :: nat, tz :: nat)).
     let t = int (tx + bx * 32); bb = int (ty + by * 1) in
     if bb \<ge> ?W * batch_size \<or> t \<ge> current_length then None
     else Some ((bb div ?W) * ?W * ?L + (bb mod ?W) * ?L + t, val (bb div ?W) (bb mod ?W) t))"
  define f where "f = (\<lambda>t (b :: int \<Rightarrow> int). case wr t of None \<Rightarrow> b | Some (off, v) \<Rightarrow> b(off := v))"
  have body: "UpdateDecoderMaskedMultiHeadAttentionCacheIndirectionKernel (bufs\<lparr>tgt_indir_cache := tg\<rparr>)
       batch_size beam_width input_seq_length max_seq_length current_length (32, 1, 1) t
     = Inr (bufs\<lparr>tgt_indir_cache := f t tg\<rparr>)" for t tg
  proof -
    obtain bx "by" bz tx ty tz where t: "t = ((bx, by, bz), (tx, ty, tz))"
      by (metis prod_cases3)
    let ?t = "int (tx + bx * 32)" and ?bb = "int (ty + by * 1)"
    have nn: "0 \<le> ?bb" by simp
    have sd: "?bb sdiv ?W = ?bb div ?W" "?bb smod ?W = ?bb mod ?W"
      using sdiv_nonneg [OF nn W] smod_nonneg [OF nn W] by simp_all
    have W0: "?W \<noteq> 0" using W by simp
    show ?thesis
    proof (cases "?bb \<ge> ?W * batch_size \<or> ?t \<ge> current_length")
      case True
      then have "wr t = None" unfolding t wr_def Let_def prod.case by (simp only: if_True)
      then have "f t tg = tg" by (simp add: f_def)
      moreover have "UpdateDecoderMaskedMultiHeadAttentionCacheIndirectionKernel
           (bufs\<lparr>tgt_indir_cache := tg\<rparr>) batch_size beam_width input_seq_length max_seq_length
           current_length (32, 1, 1) t = Inr (bufs\<lparr>tgt_indir_cache := tg\<rparr>)"
        unfolding t UpdateDecoderMaskedMultiHeadAttentionCacheIndirectionKernel.simps Let_def
        using True W0 by (simp only: if_True if_False)
      ultimately show ?thesis by simp
    next
      case False
      then have wr: "wr t = Some ((?bb div ?W) * ?W * ?L + (?bb mod ?W) * ?L + ?t,
                                  val (?bb div ?W) (?bb mod ?W) ?t)"
        unfolding t wr_def Let_def prod.case by (simp only: if_False)
      have k: "UpdateDecoderMaskedMultiHeadAttentionCacheIndirectionKernel
           (bufs\<lparr>tgt_indir_cache := tg\<rparr>) batch_size beam_width input_seq_length max_seq_length
           current_length (32, 1, 1) t
         = (if ?t < input_seq_length then
              Inr (bufs\<lparr>tgt_indir_cache := tg((?bb div ?W) * ?W * ?L + (?bb mod ?W) * ?L + ?t := 0)\<rparr>)
            else if ?t = current_length - 1 then
              Inr (bufs\<lparr>tgt_indir_cache := tg((?bb div ?W) * ?W * ?L + (?bb mod ?W) * ?L + ?t
                     := ?bb mod ?W)\<rparr>)
            else
              Inr (bufs\<lparr>tgt_indir_cache := tg((?bb div ?W) * ?W * ?L + (?bb mod ?W) * ?L + ?t
                     := src_indir_cache bufs ((?bb div ?W) * ?W * ?L
                          + (beam_ids bufs ((?bb div ?W) * ?W + ?bb mod ?W) smod ?W) * ?L + ?t))\<rparr>))"
        unfolding t UpdateDecoderMaskedMultiHeadAttentionCacheIndirectionKernel.simps Let_def sd
        using False W0 by (simp cong: if_cong del: of_nat_add of_nat_mult)
      show ?thesis
        unfolding k f_def wr option.case prod.case val_def by (simp del: of_nat_add of_nat_mult)
    qed
  qed
  have "bufs\<lparr>tgt_indir_cache := tgt_indir_cache bufs\<rparr> = bufs" by simp
  then have run: "UpdateDecoderMaskedMultiHeadAttentionCacheIndirection bufs batch_size beam_width
       input_seq_length max_seq_length current_length
     = Inr (bufs\<lparr>tgt_indir_cache := fold f threads (tgt_indir_cache bufs)\<rparr>)"
    using indirection_run [of threads _ bufs f "tgt_indir_cache bufs", OF body]
    by (simp add: UpdateDecoderMaskedMultiHeadAttentionCacheIndirection_def launch_checked_def
          threads_def G_def)
  have f: "f t b = (case wr t of None \<Rightarrow> b | Some (off, v) \<Rightarrow> b(off := v))" for t b
    by (simp add: f_def)
  have wr_cell: "\<exists>b w t. 0 \<le> b \<and> b < batch_size \<and> 0 \<le> w \<and> w < ?W \<and> 0 \<le> t \<and> t < current_length \<and>
       off = b * ?W * ?L + w * ?L + t \<and> v = val b w t"
    if "wr th = Some (off, v)" for th off v
  proof -
    obtain bx "by" bz tx ty tz where th: "th = ((bx, by, bz), (tx, ty, tz))"
      by (metis prod_cases3)
    let ?bb = "int (ty + by * 1)" and ?t = "int (tx + bx * 32)"
    from that have lt: "?bb < ?W * batch_size" "?t < current_length"
      and off: "off = (?bb div ?W) * ?W * ?L + (?bb mod ?W) * ?L + ?t"
      and v: "v = val (?bb div ?W) (?bb mod ?W) ?t"
      unfolding th wr_def Let_def by (auto split: if_splits simp del: of_nat_add of_nat_mult)
    have "0 \<le> ?bb div ?W" using W by (simp add: pos_imp_zdiv_nonneg_iff)
    moreover have "?bb div ?W < batch_size"
      using lt(1) W by (intro int_div_less) (simp_all add: mult.commute)
    moreover have "0 \<le> ?bb mod ?W" "?bb mod ?W < ?W" using W by simp_all
    moreover have "0 \<le> ?t" by simp
    ultimately show ?thesis using lt(2) off v by blast
  qed
  have frame: "\<exists>b w t. 0 \<le> b \<and> b < batch_size \<and> 0 \<le> w \<and> w < ?W \<and> 0 \<le> t \<and> t < current_length \<and>
       offset = b * ?W * ?L + w * ?L + t"
    if "fold f threads (tgt_indir_cache bufs) offset \<noteq> tgt_indir_cache bufs offset" for offset
  proof (rule ccontr)
    assume no: "\<not> ?thesis"
    have "fold f threads (tgt_indir_cache bufs) offset = tgt_indir_cache bufs offset"
    proof (rule fold_writes_other [where w = wr])
      fix th v assume "th \<in> set threads"
      show "wr th \<noteq> Some (offset, v)"
        using wr_cell [of th offset v] no by blast
    qed (rule f)
    with that show False by simp
  qed
  have cells: "fold f threads (tgt_indir_cache bufs) (b * ?W * ?L + w * ?L + t) = val b w t"
    if cl: "current_length \<le> ?L" and b: "0 \<le> b" "b < batch_size" and w: "0 \<le> w" "w < ?W"
      and t: "0 \<le> t" "t < current_length" for b w t
  proof (rule fold_writes_value [where w = wr and t = "((nat (t div 32), nat (b * ?W + w), 0), (nat (t mod 32), 0, 0))"])
    have bw: "0 \<le> b * ?W + w" using b w W by simp
    have "(b + 1) * ?W \<le> batch_size * ?W" using b W by (intro mult_right_mono) simp_all
    then have bw_lt: "b * ?W + w < batch_size * ?W" using w by (simp add: algebra_simps)
    have "t div 32 + 1 = (t + 32) div 32" by simp
    also have "\<dots> \<le> (current_length + 32 - 1) div 32"
      using t by (intro zdiv_mono1) simp_all
    finally have "t div 32 < (current_length + 32 - 1) div 32" by simp
    moreover have "(current_length + 32 - 1) sdiv 32 = (current_length + 32 - 1) div 32"
      using t by (intro sdiv_nonneg) simp_all
    ultimately have "nat (t div 32) < G" using t by (simp add: G_def nat_less_iff)
    moreover have "nat (b * ?W + w) < nat (batch_size * ?W)" using bw bw_lt by simp
    moreover have "nat (t mod 32) < 32" by (simp add: nat_less_iff)
    ultimately show "((nat (t div 32), nat (b * ?W + w), 0), (nat (t mod 32), 0, 0)) \<in> set threads"
      by (simp add: threads_def grid_threads_def set_indices)
    have tt: "int (nat (t mod 32) + nat (t div 32) * 32) = t"
      using t by (simp add: pos_imp_zdiv_nonneg_iff)
    have bb: "int (0 + nat (b * ?W + w) * 1) = b * ?W + w" using bw by simp
    have dm: "(b * ?W + w) div ?W = b" "(b * ?W + w) mod ?W = w" using w W by simp_all
    show "wr ((nat (t div 32), nat (b * ?W + w), 0), (nat (t mod 32), 0, 0))
        = Some (b * ?W * ?L + w * ?L + t, val b w t)"
      unfolding wr_def Let_def prod.case tt bb dm using bw_lt t by (simp add: mult.commute)
  next
    fix th v' assume "th \<in> set threads" and "wr th = Some (b * ?W * ?L + w * ?L + t, v')"
    then obtain b' w' t' where c: "0 \<le> b'" "b' < batch_size" "0 \<le> w'" "w' < ?W" "0 \<le> t'"
        "t' < current_length" "b * ?W * ?L + w * ?L + t = b' * ?W * ?L + w' * ?L + t'" "v' = val b' w' t'"
      using wr_cell by blast
    from c(7) have "(b * ?W + w) * ?L + t = (b' * ?W + w') * ?L + t'" by (simp add: algebra_simps)
    then have "b * ?W + w = b' * ?W + w' \<and> t = t'"
      using t c(5,6) cl by (intro row_col_unique [of t ?L t']) simp_all
    moreover from this have "b = b' \<and> w = w'"
      using w c(3,4) by (intro row_col_unique [of w ?W w']) simp_all
    ultimately show "v' = val b w t" using c(8) by simp
  qed (rule f)
  show ?thesis
    using run frame cells unfolding val_def by (intro exI [of _ "fold f threads (tgt_indir_cache bufs)"]) simp
qed


lemma no_threads_y: "grid_threads (g, 0, z) block = []"
proof -
  have empty: "concat (map (\<lambda>iz. []) xs) = []" for xs :: "nat list"
    by (induction xs) simp_all
  show ?thesis by (simp add: grid_threads_def indices_def empty)
qed

text \<open>
  Claim C2 (beam cache indirection update). Let \<open>current_length \<le> max_seq_length\<close>, and let
  \<open>b\<close>, \<open>w\<close>, \<open>t\<close> be a batch, a beam and a time step in range, with the beam id of
  \<open>(b, w)\<close> in range. Then the update returns, and the target table holds at
  \<open>[b, w, t]\<close>: 0 when \<open>t < input_seq_length\<close>; else \<open>w\<close> when \<open>t = current_length - 1\<close>;
  else the source table's entry \<open>[b, beam_ids[b, w] mod beam_width, t]\<close>. The three
  cases are tried in this order, as the kernel does. (The bounds
  \<open>0 < input_seq_length \<le> current_length\<close> are not needed.)
\<close>

theorem UpdateIndirection_cells:
  assumes "current_length \<le> max_seq_length"
    and "0 \<le> b" and "b < batch_size" and "0 \<le> w" and "w < beam_width"
    and "0 \<le> t" and "t < current_length"
    and "0 \<le> beam_ids bufs (b * beam_width + w)"
    and "beam_ids bufs (b * beam_width + w) < beam_width"
  shows "\<exists>bufs'. UpdateDecoderMaskedMultiHeadAttentionCacheIndirection bufs batch_size beam_width
                     input_seq_length max_seq_length current_length = Inr bufs' \<and>
           tgt_indir_cache bufs' (b * beam_width * max_seq_length + w * max_seq_length + t)
             = (if t < input_seq_length then 0
                else if t = current_length - 1 then w
                else src_indir_cache bufs
                       (b * beam_width * max_seq_length
                          + (beam_ids bufs (b * beam_width + w) mod beam_width) * max_seq_length + t))"
proof -
  have W: "0 < beam_width" using assms(4,5) by simp
  have "beam_ids bufs (b * beam_width + w) smod beam_width
      = beam_ids bufs (b * beam_width + w) mod beam_width"
    using assms(8) W by (rule smod_nonneg)
  then show ?thesis
    using indirection_eq [OF W, of bufs batch_size input_seq_length max_seq_length current_length]
      assms by auto
qed

theorem UpdateIndirection_cells_witness:
  "\<exists>bufs'. UpdateDecoderMaskedMultiHeadAttentionCacheIndirection
       \<lparr>tgt_indir_cache = (\<lambda>_. 7), src_indir_cache = (\<lambda>k. 100 + k), beam_ids = (\<lambda>_. 1)\<rparr>
       1 2 3 6 5 = Inr bufs' \<and>
     tgt_indir_cache bufs' 1 = 0 \<and> tgt_indir_cache bufs' 10 = 1 \<and> tgt_indir_cache bufs' 3 = 109"
proof -
  let ?bufs = "\<lparr>tgt_indir_cache = (\<lambda>_. 7), src_indir_cache = (\<lambda>k. 100 + k), beam_ids = (\<lambda>_. 1::int)\<rparr>"
  have "\<exists>bufs'. UpdateDecoderMaskedMultiHeadAttentionCacheIndirection ?bufs 1 2 3 6 5 = Inr bufs' \<and>
     tgt_indir_cache bufs' 1 = 0"
    using UpdateIndirection_cells [of 5 6 0 1 0 2 1 ?bufs 3] by simp
  moreover have "\<exists>bufs'. UpdateDecoderMaskedMultiHeadAttentionCacheIndirection ?bufs 1 2 3 6 5 = Inr bufs' \<and>
     tgt_indir_cache bufs' 10 = 1"
    using UpdateIndirection_cells [of 5 6 0 1 1 2 4 ?bufs 3] by simp
  moreover have "\<exists>bufs'. UpdateDecoderMaskedMultiHeadAttentionCacheIndirection ?bufs 1 2 3 6 5 = Inr bufs' \<and>
     tgt_indir_cache bufs' 3 = 109"
    using UpdateIndirection_cells [of 5 6 0 1 0 2 3 ?bufs 3] by simp
  ultimately show ?thesis by auto
qed

text \<open>
  Claim C9 (indirection update, frame). For a beam width that is not negative the update
  returns; the source table and the beam ids are as before; every cell of the target
  table whose value has changed is a \<open>[b, w, t]\<close> with \<open>b < batch_size\<close>,
  \<open>w < beam_width\<close> and \<open>t < current_length\<close>; and every entry \<open>[b, w, t]\<close> with
  \<open>current_length \<le> t < max_seq_length\<close> keeps its value.
\<close>

theorem UpdateIndirection_frame:
  assumes "0 \<le> beam_width"
  shows "\<exists>bufs'. UpdateDecoderMaskedMultiHeadAttentionCacheIndirection bufs batch_size beam_width
                     input_seq_length max_seq_length current_length = Inr bufs' \<and>
           src_indir_cache bufs' = src_indir_cache bufs \<and>
           beam_ids bufs' = beam_ids bufs \<and>
           (\<forall>offset. tgt_indir_cache bufs' offset \<noteq> tgt_indir_cache bufs offset \<longrightarrow>
              (\<exists>b w t. 0 \<le> b \<and> b < batch_size \<and> 0 \<le> w \<and> w < beam_width \<and>
                 0 \<le> t \<and> t < current_length \<and>
                 offset = b * beam_width * max_seq_length + w * max_seq_length + t)) \<and>
           (\<forall>b w t. 0 \<le> b \<and> b < batch_size \<and> 0 \<le> w \<and> w < beam_width \<and>
                current_length \<le> t \<and> t < max_seq_length \<longrightarrow>
              tgt_indir_cache bufs' (b * beam_width * max_seq_length + w * max_seq_length + t)
                = tgt_indir_cache bufs (b * beam_width * max_seq_length + w * max_seq_length + t))"
proof (cases "beam_width = 0")
  case True
  then show ?thesis
    by (simp add: UpdateDecoderMaskedMultiHeadAttentionCacheIndirection_def launch_checked_def
          no_threads_y)
next
  case False
  with assms have W: "0 < beam_width" by simp
  let ?L = max_seq_length and ?W = beam_width
  obtain tgt' where run: "UpdateDecoderMaskedMultiHeadAttentionCacheIndirection bufs batch_size
        beam_width input_seq_length max_seq_length current_length
      = Inr (bufs\<lparr>tgt_indir_cache := tgt'\<rparr>)"
    and only: "\<And>offset. tgt' offset \<noteq> tgt_indir_cache bufs offset \<Longrightarrow>
        \<exists>b w t. 0 \<le> b \<and> b < batch_size \<and> 0 \<le> w \<and> w < ?W \<and> 0 \<le> t \<and> t < current_length \<and>
           offset = b * ?W * ?L + w * ?L + t"
    using indirection_eq [OF W, of bufs batch_size input_seq_length max_seq_length current_length]
    by blast
  have keep: "tgt' (b * ?W * ?L + w * ?L + t) = tgt_indir_cache bufs (b * ?W * ?L + w * ?L + t)"
    if "0 \<le> b \<and> b < batch_size \<and> 0 \<le> w \<and> w < ?W \<and> current_length \<le> t \<and> t < ?L" for b w t
  proof (rule ccontr)
    assume "\<not> ?thesis"
    then obtain b' w' t' where c: "0 \<le> t'" "t' < current_length"
        "b * ?W * ?L + w * ?L + t = b' * ?W * ?L + w' * ?L + t'"
      using only by blast
    from c(3) have "(b * ?W + w) * ?L + t = (b' * ?W + w') * ?L + t'" by (simp add: algebra_simps)
    then have "t = t'"
      using that c(1,2) by (intro row_col_unique [of t ?L t', THEN conjunct2]) simp_all
    with that c(2) show False by simp
  qed
  show ?thesis
    using run only keep by (intro exI [of _ "bufs\<lparr>tgt_indir_cache := tgt'\<rparr>"]) simp
qed

theorem UpdateIndirection_frame_witness:
  "(0::int) \<le> 2 \<and>
   (\<exists>bufs'. UpdateDecoderMaskedMultiHeadAttentionCacheIndirection
       \<lparr>tgt_indir_cache = (\<lambda>_. 7), src_indir_cache = (\<lambda>k. 100 + k), beam_ids = (\<lambda>_. 1)\<rparr>
       1 2 1 4 2 = Inr bufs' \<and>
     src_indir_cache bufs' = (\<lambda>k. 100 + k) \<and> beam_ids bufs' = (\<lambda>_. 1) \<and>
     tgt_indir_cache bufs' 2 = 7 \<and> tgt_indir_cache bufs' 7 = 7)"
proof -
  let ?bufs = "\<lparr>tgt_indir_cache = (\<lambda>_. 7), src_indir_cache = (\<lambda>k. 100 + k), beam_ids = (\<lambda>_. 1::int)\<rparr>"
  obtain bufs' where run: "UpdateDecoderMaskedMultiHeadAttentionCacheIndirection ?bufs 1 2 1 4 2 = Inr bufs'"
    and ro: "src_indir_cache bufs' = (\<lambda>k. 100 + k)" "beam_ids bufs' = (\<lambda>_. 1)"
    and keep: "\<And>b w t. 0 \<le> b \<and> b < 1 \<and> 0 \<le> w \<and> w < 2 \<and> 2 \<le> t \<and> t < 4 \<Longrightarrow>
        tgt_indir_cache bufs' (b * 2 * 4 + w * 4 + t) = 7"
    using UpdateIndirection_frame [of 2 ?bufs 1 1 4 2] by auto
  have "tgt_indir_cache bufs' 2 = 7" "tgt_indir_cache bufs' 7 = 7"
    using keep [of 0 0 2] keep [of 0 1 3] by simp_all
  with run ro show ?thesis by simp
qed


section \<open>Past-state cache reorder: the kernel as a transposition\<close>

lemma offset_bound:
  fixes i j n m :: int
  assumes "0 \<le> i" "i < n" "0 \<le> j" "j < m"
  shows "0 \<le> i * m + j" and "i * m + j < n * m"
proof -
  show "0 \<le> i * m + j" using assms by simp
  have "(i + 1) * m \<le> n * m" using assms by (intro mult_right_mono) simp_all
  then show "i * m + j < n * m" using assms(4) by (simp add: algebra_simps)
qed

lemma fold_product:
  "fold (\<lambda>b s. fold (h b) ts s) bs s = fold (\<lambda>(b, t). h b t) (List.product bs ts) s"
proof (induction bs arbitrary: s)
  case Nil
  show ?case by simp
next
  case (Cons b bs)
  have "fold (\<lambda>(b, t). h b t) (map (Pair b) ts) s = fold (h b) ts s" for s
    by (simp add: fold_map comp_def)
  then show ?case using Cons by simp
qed

text \<open>The tile of a block after the barrier.\<close>

lemma stage_tile:
  assumes H: "int H2 \<le> 32" and r: "r < 16" and c: "c < H2"
    and s: "int (bx * kSeqTileSize) + int r < max_length"
  shows "fold (\<lambda>threadIdx t. ReorderPastStatesKernel_stage t in_buffer batch_size num_heads
                 max_length chunked_head_size ((bx, by, bz), threadIdx))
           (indices (H2, kSeqTileSize, 1)) shared (tile_index (int r) (int c))
         = in_buffer ((int bz * num_heads + int by) * max_length * chunked_head_size
                       + (int (bx * kSeqTileSize) + int r) * chunked_head_size + int c)"
proof -
  let ?base = "(int bz * num_heads + int by) * max_length * chunked_head_size"
  define w where "w = (\<lambda>(tx :: nat, ty :: nat, tz :: nat).
     if int (bx * kSeqTileSize) + int ty < max_length
     then Some (tile_index (int ty) (int tx),
                in_buffer (?base + (int (bx * kSeqTileSize) + int ty) * chunked_head_size + int tx))
     else None)"
  show ?thesis
  proof (rule fold_writes_value [where w = w and t = "(c, r, 0)"])
    fix t :: dim3 and b :: "int \<Rightarrow> 'a"
    obtain tx ty tz where t: "t = (tx, ty, tz)" by (rule prod_cases3)
    show "ReorderPastStatesKernel_stage b in_buffer batch_size num_heads max_length
            chunked_head_size ((bx, by, bz), t)
          = (case w t of None \<Rightarrow> b | Some (off, v) \<Rightarrow> b(off := v))"
      unfolding t by (simp add: w_def Let_def del: of_nat_mult of_nat_add)
  next
    show "(c, r, 0) \<in> set (indices (H2, kSeqTileSize, 1))"
      using r c by (simp add: set_indices kSeqTileSize_def)
    show "w (c, r, 0) = Some (tile_index (int r) (int c),
            in_buffer (?base + (int (bx * kSeqTileSize) + int r) * chunked_head_size + int c))"
      using s by (simp add: w_def)
  next
    fix t' v'
    assume t': "t' \<in> set (indices (H2, kSeqTileSize, 1))"
      and w': "w t' = Some (tile_index (int r) (int c), v')"
    obtain tx ty tz where t: "t' = (tx, ty, tz)" by (rule prod_cases3)
    from t' have tx: "tx < H2" unfolding t by (simp add: set_indices)
    from w' have eq: "tile_index (int ty) (int tx) = tile_index (int r) (int c)"
      and v': "v' = in_buffer (?base + (int (bx * kSeqTileSize) + int ty) * chunked_head_size + int tx)"
      unfolding t w_def by (auto split: if_splits)
    from eq have "int ty * 33 + int tx = int r * 33 + int c"
      by (simp add: tile_index_def kTileSize_def)
    then have "int ty = int r \<and> int tx = int c"
      using tx c H by (intro row_col_unique [of "int tx" 33 "int c"]) simp_all
    then show "v' = in_buffer (?base + (int (bx * kSeqTileSize) + int r) * chunked_head_size + int c)"
      using v' by simp
  qed
qed


lemma reorder_cell:
  assumes H: "chunked_head_size = int H2" "int H2 \<le> 32"
    and b: "0 \<le> b" "b < batch_size" and n: "0 \<le> n" "n < num_heads"
    and c: "0 \<le> c" "c < chunked_head_size" and t: "0 \<le> t" "t < max_length"
  shows "ReorderPastStatesKernel
           (nat ((max_length + int kSeqTileSize - 1) sdiv int kSeqTileSize), nat num_heads, nat batch_size)
           (H2, kSeqTileSize, 1) shared out_buffer in_buffer batch_size num_heads max_length
           chunked_head_size
           ((b * num_heads + n) * max_length * chunked_head_size + c * max_length + t)
         = in_buffer ((b * num_heads + n) * max_length * chunked_head_size + t * chunked_head_size + c)"
proof -
  let ?L = max_length and ?H = chunked_head_size
  let ?grid = "(nat ((?L + int kSeqTileSize - 1) sdiv int kSeqTileSize), nat num_heads, nat batch_size)"
  let ?block = "(H2, kSeqTileSize, 1 :: nat)"
  define base where "base = (\<lambda>(bz :: nat) (by :: nat). (int bz * num_heads + int by) * ?L * ?H)"
  define w where "w = (\<lambda>((bx :: nat, by :: nat, bz :: nat), (tx :: nat, ty :: nat, tz :: nat)).
     let tidx = int tx + int ty * ?H; x = tidx mod 16; y = tidx div 16; s2 = int (bx * 16) + x in
     if s2 < ?L then Some (base bz by + y * ?L + s2, in_buffer (base bz by + s2 * ?H + y)) else None)"
  define f where "f = (\<lambda>th (out :: int \<Rightarrow> 'a). case w th of None \<Rightarrow> out | Some (off, v) \<Rightarrow> out(off := v))"
  have Hpos: "0 < ?H" using c by simp
  have block: "ReorderPastStatesKernel_block out in_buffer batch_size num_heads ?L ?H sh ?block blk
      = fold (\<lambda>th. f (blk, th)) (indices ?block) out" for out sh blk
  proof -
    obtain bx "by" bz where blk: "blk = (bx, by, bz)" by (rule prod_cases3)
    let ?tile = "fold (\<lambda>threadIdx t. ReorderPastStatesKernel_stage t in_buffer batch_size num_heads
                 ?L ?H ((bx, by, bz), threadIdx)) (indices ?block) sh"
    have "ReorderPastStatesKernel_write out' ?tile batch_size num_heads ?L ?H ((bx, by, bz), th)
        = f ((bx, by, bz), th) out'" if th: "th \<in> set (indices ?block)" for th out'
    proof -
      obtain tx ty tz where t: "th = (tx, ty, tz)" by (rule prod_cases3)
      from th have lt: "tx < H2" "ty < 16" unfolding t by (simp_all add: set_indices kSeqTileSize_def)
      let ?tidx = "int tx + int ty * ?H"
      have nn: "0 \<le> ?tidx" using Hpos by simp
      have "?tidx < 16 * ?H"
        using offset_bound(2) [of "int ty" 16 "int tx" ?H] lt H by simp
      then have y: "?tidx div 16 < ?H" by simp
      have sd: "?tidx smod 16 = ?tidx mod 16" "?tidx sdiv 16 = ?tidx div 16"
        using nn by (simp_all add: smod_nonneg sdiv_nonneg)
      have tile: "?tile (tile_index (?tidx mod 16) (?tidx div 16))
          = in_buffer (base bz by + (int (bx * 16) + ?tidx mod 16) * ?H + ?tidx div 16)"
        if "int (bx * 16) + ?tidx mod 16 < ?L"
        using stage_tile [of H2 "nat (?tidx mod 16)" "nat (?tidx div 16)" bx ?L in_buffer batch_size
            num_heads ?H "by" bz sh] H y nn that
        by (simp add: base_def kSeqTileSize_def nat_less_iff pos_imp_zdiv_nonneg_iff)
      show ?thesis
        unfolding t ReorderPastStatesKernel_write.simps Let_def f_def w_def prod.case
        using tile by (simp add: sd kSeqTileSize_def base_def del: of_nat_mult of_nat_add)
    qed
    then show ?thesis
      unfolding blk ReorderPastStatesKernel_block_def Let_def by (intro fold_cong) simp_all
  qed
  have kernel: "ReorderPastStatesKernel ?grid ?block shared out_buffer in_buffer batch_size num_heads
      ?L ?H = fold f (List.product (indices ?grid) (indices ?block)) out_buffer"
    unfolding ReorderPastStatesKernel_def block
    using fold_product [of "\<lambda>blk th. f (blk, th)" "indices ?block" "indices ?grid" out_buffer]
    by (simp add: case_prod_unfold)
  have cell: "\<exists>b' n' c' t'. 0 \<le> c' \<and> c' < ?H \<and> 0 \<le> t' \<and> t' < ?L \<and>
      off = (b' * num_heads + n') * ?L * ?H + c' * ?L + t' \<and>
      v = in_buffer ((b' * num_heads + n') * ?L * ?H + t' * ?H + c')"
    if th: "th \<in> set (List.product (indices ?grid) (indices ?block))" and wth: "w th = Some (off, v)"
    for th off v
  proof -
    obtain bx "by" bz tx ty tz where th': "th = ((bx, by, bz), (tx, ty, tz))"
      by (metis prod_cases3)
    from th have lt: "tx < H2" "ty < 16"
      unfolding th' by (simp_all add: set_indices kSeqTileSize_def)
    let ?tidx = "int tx + int ty * ?H"
    let ?s2 = "int (bx * 16) + ?tidx mod 16"
    have nn: "0 \<le> ?tidx" using Hpos by simp
    have "?tidx < 16 * ?H"
      using offset_bound(2) [of "int ty" 16 "int tx" ?H] lt H by simp
    then have y: "?tidx div 16 < ?H" "0 \<le> ?tidx div 16" using nn by simp_all
    from wth have "?s2 < ?L" "off = base bz by + (?tidx div 16) * ?L + ?s2"
      "v = in_buffer (base bz by + ?s2 * ?H + ?tidx div 16)"
      unfolding th' w_def Let_def prod.case by (simp_all split: if_splits)
    moreover have "0 \<le> ?s2" by simp
    ultimately show ?thesis
      using y unfolding base_def by blast
  qed
  let ?tidx = "c * 16 + t mod 16"
  let ?th = "((nat (t div 16), nat n, nat b), (nat (?tidx mod ?H), nat (?tidx div ?H), 0 :: nat))"
  have "fold f (List.product (indices ?grid) (indices ?block)) out_buffer
          ((b * num_heads + n) * ?L * ?H + c * ?L + t)
        = in_buffer ((b * num_heads + n) * ?L * ?H + t * ?H + c)"
  proof (rule fold_writes_value [where w = w and t = ?th])
    have nn: "0 \<le> ?tidx" using c by simp
    have "?tidx < ?H * 16" using offset_bound(2) [of c ?H "t mod 16" 16] c by simp
    then have ty: "?tidx div ?H < 16" using Hpos by (intro int_div_less) (simp_all add: mult.commute)
    have ty0: "0 \<le> ?tidx div ?H" using nn Hpos by (simp add: pos_imp_zdiv_nonneg_iff)
    have tx: "0 \<le> ?tidx mod ?H" "?tidx mod ?H < ?H" using Hpos by simp_all
    have "t div 16 + 1 = (t + 16) div 16" by simp
    also have "\<dots> \<le> (?L + 16 - 1) div 16" using t by (intro zdiv_mono1) simp_all
    finally have "t div 16 < (?L + 16 - 1) div 16" by simp
    moreover have "(?L + 16 - 1) sdiv 16 = (?L + 16 - 1) div 16"
      using t by (intro sdiv_nonneg) simp_all
    ultimately have bx: "nat (t div 16) < nat ((?L + int kSeqTileSize - 1) sdiv int kSeqTileSize)"
      using t by (simp add: kSeqTileSize_def nat_less_iff pos_imp_zdiv_nonneg_iff)
    show "?th \<in> set (List.product (indices ?grid) (indices ?block))"
      using bx b n tx ty ty0 H by (simp add: set_indices kSeqTileSize_def nat_less_iff)
    have tidx: "int (nat (?tidx mod ?H)) + int (nat (?tidx div ?H)) * ?H = ?tidx"
      using tx ty0 by simp
    have xy: "?tidx mod 16 = t mod 16" "?tidx div 16 = c" by simp_all
    have s2: "int (nat (t div 16) * 16) + t mod 16 = t"
      using t by (simp add: pos_imp_zdiv_nonneg_iff)
    have bs: "base (nat b) (nat n) = (b * num_heads + n) * ?L * ?H"
      using b n by (simp add: base_def)
    show "w ?th = Some ((b * num_heads + n) * ?L * ?H + c * ?L + t,
                      in_buffer ((b * num_heads + n) * ?L * ?H + t * ?H + c))"
      unfolding w_def prod.case Let_def tidx xy s2 bs using t by simp
  next
    fix th' v'
    assume "th' \<in> set (List.product (indices ?grid) (indices ?block))"
      and "w th' = Some ((b * num_heads + n) * ?L * ?H + c * ?L + t, v')"
    then obtain b' n' c' t' where c': "0 \<le> c'" "c' < ?H" "0 \<le> t'" "t' < ?L"
      and eq: "(b * num_heads + n) * ?L * ?H + c * ?L + t = (b' * num_heads + n') * ?L * ?H + c' * ?L + t'"
      and v': "v' = in_buffer ((b' * num_heads + n') * ?L * ?H + t' * ?H + c')"
      using cell by blast
    have in1: "0 \<le> c * ?L + t" "c * ?L + t < ?H * ?L"
      using offset_bound [of c ?H t ?L] c t by simp_all
    have in2: "0 \<le> c' * ?L + t'" "c' * ?L + t' < ?H * ?L"
      using offset_bound [of c' ?H t' ?L] c' by simp_all
    from eq have "(b * num_heads + n) * (?H * ?L) + (c * ?L + t)
        = (b' * num_heads + n') * (?H * ?L) + (c' * ?L + t')"
      by (simp add: algebra_simps)
    then have bn: "b * num_heads + n = b' * num_heads + n'" and "c * ?L + t = c' * ?L + t'"
      using row_col_unique [OF in1 in2] by simp_all
    then have "c = c' \<and> t = t'"
      using t c' by (intro row_col_unique [of t ?L t']) simp_all
    then show "v' = in_buffer ((b * num_heads + n) * ?L * ?H + t * ?H + c)"
      using v' bn by simp
  qed (simp add: f_def)
  then show ?thesis by (simp only: kernel)
qed


text \<open>
  Claim C1 (cache layout transform). Let the chunk width be 4 or 8 and divide the head
  size, with at most 32 chunks per head, and let \<open>b\<close>, \<open>n\<close>, \<open>c\<close>, \<open>t\<close> be a batch, a
  head, a head chunk and a time step in range. Then the launcher returns, and the output
  holds at \<open>[b, n, c, t]\<close> (layout \<open>[B, N, H2, Lmax]\<close>) the chunk that the input holds at
  \<open>[b, n, t, c]\<close> (layout \<open>[B, N, Lmax, H2]\<close>): the two inner axes are swapped and the
  chunks themselves are copied as they are. \<open>max_length\<close> is any length, a multiple of
  the sequence tile of 16 rows or not, and the contents of the shared memory do not
  matter. Hence swapping the axes back gives the input again at \<open>[b, n, t, c]\<close>.
\<close>

theorem ReorderPastStates_swaps_axes:
  assumes "chunk_size = 4 \<or> chunk_size = 8"
    and "chunk_size dvd head_size"
    and "head_size div chunk_size \<le> 32"
    and "0 \<le> b" and "b < batch_size" and "0 \<le> n" and "n < num_heads"
    and "0 \<le> c" and "c < head_size div chunk_size"
    and "0 \<le> t" and "t < max_length"
  shows "\<exists>out'. ReorderPastStatesKernelLauncher out_buffer in_buffer batch_size num_heads
                    max_length head_size chunk_size shared = Inr out' \<and>
           out' ((b * num_heads + n) * max_length * (head_size div chunk_size) + c * max_length + t)
             = in_buffer ((b * num_heads + n) * max_length * (head_size div chunk_size)
                            + t * (head_size div chunk_size) + c) \<and>
           spec_inverse_axis_swap out' batch_size num_heads max_length (head_size div chunk_size)
               ((b * num_heads + n) * max_length * (head_size div chunk_size)
                  + t * (head_size div chunk_size) + c)
             = in_buffer ((b * num_heads + n) * max_length * (head_size div chunk_size)
                            + t * (head_size div chunk_size) + c)"
proof -
  let ?H = "head_size div chunk_size" and ?L = max_length
  let ?out = "ReorderPastStatesKernel
     (nat ((?L + int kSeqTileSize - 1) sdiv int kSeqTileSize), nat num_heads, nat batch_size)
     (nat ?H, kSeqTileSize, 1) shared out_buffer in_buffer batch_size num_heads ?L ?H"
  have cs: "0 < chunk_size" using assms(1) by auto
  have Hpos: "0 < ?H" using assms(8,9) by simp
  then have "0 \<le> head_size" using cs by (simp add: pos_imp_zdiv_pos_iff)
  then have sd: "head_size sdiv chunk_size = ?H" using cs by (rule sdiv_nonneg)
  have run: "ReorderPastStatesKernelLauncher out_buffer in_buffer batch_size num_heads
      max_length head_size chunk_size shared = Inr ?out"
    using assms(1) cs by (simp add: ReorderPastStatesKernelLauncher_def Let_def sd)
  have cell: "?out ((b * num_heads + n) * ?L * ?H + c * ?L + t)
      = in_buffer ((b * num_heads + n) * ?L * ?H + t * ?H + c)"
    using assms Hpos by (intro reorder_cell) simp_all
  let ?bn = "b * num_heads + n"
  let ?r = "t * ?H + c"
  let ?o = "?bn * ?L * ?H + ?r"
  have bn: "0 \<le> ?bn" "?bn < batch_size * num_heads"
    using offset_bound [of b batch_size n num_heads] assms by simp_all
  have r: "0 \<le> ?r" "?r < ?L * ?H"
    using offset_bound [of t ?L c ?H] assms by simp_all
  have o: "0 \<le> ?bn * (?L * ?H) + ?r" "?bn * (?L * ?H) + ?r < batch_size * num_heads * (?L * ?H)"
    using offset_bound [OF bn r] by simp_all
  have "(?bn * (?L * ?H) + ?r) div (?L * ?H) = ?bn"
    by (rule int_div_pos_eq [where r = ?r]) (use r in \<open>simp_all add: mult.commute\<close>)
  moreover have "(?bn * (?L * ?H) + ?r) mod (?L * ?H) = ?r"
    by (rule int_mod_pos_eq [where q = ?bn]) (use r in \<open>simp_all add: mult.commute\<close>)
  moreover have "?r div ?H = t"
    by (rule int_div_pos_eq [where r = c]) (use assms(8,9) in \<open>simp_all add: mult.commute\<close>)
  moreover have "?r mod ?H = c"
    by (rule int_mod_pos_eq [where q = t]) (use assms(8,9) in \<open>simp_all add: mult.commute\<close>)
  ultimately have "spec_inverse_axis_swap ?out batch_size num_heads ?L ?H (?bn * (?L * ?H) + ?r)
      = ?out (?bn * ?L * ?H + c * ?L + t)"
    using o unfolding spec_inverse_axis_swap_def Let_def by (simp add: mult.assoc)
  moreover have "?bn * (?L * ?H) + ?r = ?bn * ?L * ?H + t * ?H + c" by (simp add: mult.assoc)
  ultimately have "spec_inverse_axis_swap ?out batch_size num_heads ?L ?H (?bn * ?L * ?H + t * ?H + c)
      = in_buffer (?bn * ?L * ?H + t * ?H + c)"
    using cell by simp
  with run cell show ?thesis by blast
qed

theorem ReorderPastStates_swaps_axes_witness:
  "(\<exists>out'. ReorderPastStatesKernelLauncher (\<lambda>_. 0) (\<lambda>k. k) 2 2 5 8 4 (\<lambda>_ _. 0) = Inr out' \<and>
      out' 38 = (37 :: int) \<and> spec_inverse_axis_swap out' 2 2 5 2 37 = 37) \<and>
   (\<exists>out'. ReorderPastStatesKernelLauncher (\<lambda>_. 0) (\<lambda>k. k) 1 1 16 256 8 (\<lambda>_ _. 0) = Inr out' \<and>
      out' 511 = (511 :: int) \<and> out' 496 = 31 \<and> spec_inverse_axis_swap out' 1 1 16 32 31 = 31)"
proof -
  have "\<exists>out'. ReorderPastStatesKernelLauncher (\<lambda>_. 0) (\<lambda>k. k) 2 2 5 8 4 (\<lambda>_ _. 0) = Inr out' \<and>
      out' 38 = (37 :: int) \<and> spec_inverse_axis_swap out' 2 2 5 2 37 = 37"
    using ReorderPastStates_swaps_axes [of 4 8 1 2 1 2 1 3 5 "\<lambda>_. 0" "\<lambda>k. k" "\<lambda>_ _. 0"] by simp
  moreover have "\<exists>out'. ReorderPastStatesKernelLauncher (\<lambda>_. 0) (\<lambda>k. k) 1 1 16 256 8 (\<lambda>_ _. 0) = Inr out' \<and>
      out' 511 = (511 :: int) \<and> out' 496 = 31 \<and> spec_inverse_axis_swap out' 1 1 16 32 31 = 31"
  proof -
    obtain out' :: "int \<Rightarrow> int"
      where run: "ReorderPastStatesKernelLauncher (\<lambda>_. 0) (\<lambda>k. k) 1 1 16 256 8 (\<lambda>_ _. 0) = Inr out'"
        and c1: "out' 511 = 511"
      using ReorderPastStates_swaps_axes [of 8 256 0 1 0 1 31 15 16 "\<lambda>_. 0" "\<lambda>k. k" "\<lambda>_ _. 0"] by auto
    have "\<exists>out''. ReorderPastStatesKernelLauncher (\<lambda>_. 0) (\<lambda>k. k) 1 1 16 256 8 (\<lambda>_ _. 0) = Inr out'' \<and>
        out'' 496 = (31 :: int) \<and> spec_inverse_axis_swap out'' 1 1 16 32 31 = 31"
      using ReorderPastStates_swaps_axes [of 8 256 0 1 0 1 31 0 16 "\<lambda>_. 0" "\<lambda>k. k" "\<lambda>_ _. 0"] by simp
    with run c1 show ?thesis by auto
  qed
  ultimately show ?thesis by simp
qed

text \<open>
  Claim C4, as the code has it. The launcher does not check the chunk width: for a width
  other than 4 and 8 it launches no kernel and returns, with the output buffer as it was
  and nothing that tells the caller. (The only failure is the host's division
  \<^verbatim>\<open>head_size / chunk_size\<close> by a width of 0.)
\<close>

theorem ReorderLauncher_skips_unsupported_chunk:
  assumes "chunk_size \<noteq> 4" and "chunk_size \<noteq> 8"
  shows "ReorderPastStatesKernelLauncher out_buffer in_buffer batch_size num_heads max_length
           head_size chunk_size shared
         = (if chunk_size = 0 then Inl DivisionByZero else Inr out_buffer)"
  using assms by (simp add: ReorderPastStatesKernelLauncher_def Let_def)

theorem ReorderLauncher_skips_unsupported_chunk_witness:
  "(2::int) \<noteq> 4 \<and> (2::int) \<noteq> 8 \<and>
   ReorderPastStatesKernelLauncher (\<lambda>_. 0) (\<lambda>k. k) 1 1 16 8 2 (\<lambda>_ _. 0) = Inr (\<lambda>_. 0 :: int)"
  using ReorderLauncher_skips_unsupported_chunk [of 2 "\<lambda>_. 0 :: int" "\<lambda>k. k" 1 1 16 8 "\<lambda>_ _. 0"]
  by simp

text \<open>
  The claim as the spec states it (an unsupported chunk width makes the call fail) does
  not hold: with a chunk width of 2 the call returns normally and the output buffer is
  untouched, although the input differs from it.
\<close>

theorem ReorderLauncher_rejects_unsupported_chunk_counterexample:
  "ReorderPastStatesKernelLauncher (\<lambda>_. 0) (\<lambda>k. k) 1 1 16 8 2 (\<lambda>_ _. 0) \<noteq> Inl DivisionByZero \<and>
   ReorderPastStatesKernelLauncher (\<lambda>_. 0) (\<lambda>k. k) 1 1 16 8 2 (\<lambda>_ _. 0) = Inr (\<lambda>_. 0 :: int)"
  by (simp add: ReorderPastStatesKernelLauncher_def Let_def)


section \<open>End-of-sequence logits: one row after the launch\<close>

lemma float_less_irrefl: "\<not> float_less a a"
  by (simp add: float_less_def)

lemma float_less_trans: "float_less a b \<Longrightarrow> float_less b c \<Longrightarrow> float_less a c"
  by (auto simp: float_less_def)

lemma float_less_asym: "float_less a b \<Longrightarrow> \<not> float_less b a"
  by (auto simp: float_less_def)

lemma std_max_cases: "std_max a b = a \<or> std_max a b = b"
  by (simp add: std_max_def)

lemma std_max_not_nan: "\<not> float_is_nan a \<Longrightarrow> \<not> float_is_nan (std_max a b)"
  by (auto simp: std_max_def float_less_def)

lemma std_max_ge_right: "\<not> float_less (std_max a b) b"
  by (simp add: std_max_def float_less_irrefl)

lemma std_max_ge: "\<not> float_less a x \<Longrightarrow> \<not> float_less (std_max a b) x"
  by (auto simp: std_max_def dest: float_less_trans)

text \<open>The buffer after the loop: the slots of the ids from \<open>i\<close> on hold the lowest value.\<close>

lemma loop_buffer:
  "snd (HandleEOSArray_loop e n l i (mx, bl)) c
     = (if \<exists>j. i \<le> j \<and> j < n \<and> c = l + e j then float_lowest else bl c)"
proof (induction e n l i "(mx, bl)" arbitrary: mx bl rule: HandleEOSArray_loop.induct)
  case (1 e n l i mx bl)
  show ?case
  proof (cases "i < n")
    case True
    have "(\<exists>j. i \<le> j \<and> j < n \<and> c = l + e j) \<longleftrightarrow> (c = l + e i \<or> (\<exists>j. i + 1 \<le> j \<and> j < n \<and> c = l + e j))"
      using True by (metis add1_zle_eq order_le_less)
    then show ?thesis
      using True "1.hyps" [OF True] by (subst HandleEOSArray_loop.simps) auto
  next
    case False
    then show ?thesis by (subst HandleEOSArray_loop.simps) auto
  qed
qed

text \<open>
  The maximum after the loop, for pairwise different ids: it is the starting value or one
  of the scores read, and none of them is greater.
\<close>

lemma loop_max:
  assumes "\<And>j k. i \<le> j \<Longrightarrow> j < k \<Longrightarrow> k < n \<Longrightarrow> e j \<noteq> e k"
    and "\<not> float_is_nan mx"
  shows "(fst (HandleEOSArray_loop e n l i (mx, bl)) = mx \<or>
          (\<exists>j. i \<le> j \<and> j < n \<and> fst (HandleEOSArray_loop e n l i (mx, bl)) = bl (l + e j))) \<and>
         \<not> float_less (fst (HandleEOSArray_loop e n l i (mx, bl))) mx \<and>
         (\<forall>j. i \<le> j \<and> j < n \<longrightarrow> \<not> float_less (fst (HandleEOSArray_loop e n l i (mx, bl))) (bl (l + e j))) \<and>
         \<not> float_is_nan (fst (HandleEOSArray_loop e n l i (mx, bl)))"
  using assms
proof (induction e n l i "(mx, bl)" arbitrary: mx bl rule: HandleEOSArray_loop.induct)
  case (1 e n l i mx bl)
  show ?case
  proof (cases "i < n")
    case False
    then have "HandleEOSArray_loop e n l i (mx, bl) = (mx, bl)"
      by (subst HandleEOSArray_loop.simps) simp
    then show ?thesis
      using False "1.prems"(2) by (auto simp: float_less_irrefl)
  next
    case True
    let ?x = "bl (l + e i)"
    let ?mx = "std_max mx ?x"
    let ?bl = "bl(l + e i := float_lowest)"
    let ?M = "fst (HandleEOSArray_loop e n l (i + 1) (?mx, ?bl))"
    have M: "fst (HandleEOSArray_loop e n l i (mx, bl)) = ?M"
      using True by (subst HandleEOSArray_loop.simps) simp
    have later: "?bl (l + e j) = bl (l + e j)" if "i + 1 \<le> j" "j < n" for j
      using "1.prems"(1) [of i j] that by simp
    have nan: "\<not> float_is_nan ?mx"
      using "1.prems"(2) by (rule std_max_not_nan)
    have IH: "(?M = ?mx \<or> (\<exists>j. i + 1 \<le> j \<and> j < n \<and> ?M = ?bl (l + e j))) \<and>
         \<not> float_less ?M ?mx \<and>
         (\<forall>j. i + 1 \<le> j \<and> j < n \<longrightarrow> \<not> float_less ?M (?bl (l + e j))) \<and>
         \<not> float_is_nan ?M"
      using "1.prems"(1) nan by (intro "1.hyps" [OF True]) simp_all
    then have IH1: "?M = ?mx \<or> (\<exists>j. i + 1 \<le> j \<and> j < n \<and> ?M = ?bl (l + e j))"
      and IH2: "\<not> float_less ?M ?mx"
      and IH3: "\<And>j. i + 1 \<le> j \<Longrightarrow> j < n \<Longrightarrow> \<not> float_less ?M (?bl (l + e j))"
      and IH4: "\<not> float_is_nan ?M"
      by blast+
    have a: "?M = mx \<or> (\<exists>j. i \<le> j \<and> j < n \<and> ?M = bl (l + e j))"
      using IH1
    proof
      assume "?M = ?mx"
      then show ?thesis using std_max_cases [of mx ?x] True by auto
    next
      assume "\<exists>j. i + 1 \<le> j \<and> j < n \<and> ?M = ?bl (l + e j)"
      then obtain j where "i + 1 \<le> j" "j < n" "?M = ?bl (l + e j)" by blast
      then have "i \<le> j \<and> j < n \<and> ?M = bl (l + e j)" using later by simp
      then show ?thesis by blast
    qed
    have key: "float_key ?mx \<le> float_key ?M"
      using IH2 IH4 nan by (simp add: float_less_def)
    have lower: "\<not> float_less ?M y" if "\<not> float_less ?mx y" for y
      using that key nan by (auto simp: float_less_def)
    have b: "\<not> float_less ?M mx"
      by (rule lower) (simp add: std_max_ge float_less_irrefl)
    have c: "\<not> float_less ?M (bl (l + e j))" if "i \<le> j \<and> j < n" for j
    proof (cases "j = i")
      case True
      then show ?thesis using lower [OF std_max_ge_right [of mx ?x]] by simp
    next
      case False
      with that have j: "i + 1 \<le> j" "j < n" by simp_all
      then show ?thesis using IH3 [OF j] later [OF j] by simp
    qed
    show ?thesis unfolding M using a b c IH4 by blast
  qed
qed


lemma float_examples:
  "float_less 0x40000000 0x40A00000" "float_less float_lowest 0x40A00000"
  "float_less float_neg_infinity float_lowest" "float_lowest \<noteq> float_neg_infinity"
  "\<not> float_is_nan float_lowest" "\<not> float_less 0x40A00000 0x40000000"
  by (simp_all add: float_less_def float_is_nan_def float_key_def float_lowest_def float_neg_infinity_def)

text \<open>The thread of one row, and what it leaves alone.\<close>

lemma eos_thread_eq:
  "HandleEOSArray bl bbs V e n (256, 1, 1) ((bx, 0, 0), (tx, 0, 0))
     = (if int (bx * 256 + tx) \<ge> bbs then bl
        else (snd (HandleEOSArray_loop e n (int (bx * 256 + tx) * V) 0 (float_lowest, bl)))
               (int (bx * 256 + tx) * V + e 0
                  := fst (HandleEOSArray_loop e n (int (bx * 256 + tx) * V) 0 (float_lowest, bl))))"
  by (simp only: HandleEOSArray.simps Let_def case_prod_unfold)

lemma eos_thread_other_row:
  assumes range: "\<And>j. 0 \<le> j \<Longrightarrow> j < n \<Longrightarrow> 0 \<le> e j \<and> e j < V"
    and n: "1 \<le> n" and x: "0 \<le> x" "x < V" and k: "int (bx * 256 + tx) \<noteq> r"
  shows "HandleEOSArray bl bbs V e n (256, 1, 1) ((bx, 0, 0), (tx, 0, 0)) (r * V + x) = bl (r * V + x)"
proof -
  define k where "k = int (bx * 256 + tx)"
  have kr: "k \<noteq> r" unfolding k_def by (rule assms(5))
  have no: "r * V + x \<noteq> k * V + e j" if "0 \<le> j" "j < n" for j
  proof
    assume "r * V + x = k * V + e j"
    then have "r = k"
      using row_col_unique [of x V "e j" r k] range [OF that] x by simp
    with kr show False by simp
  qed
  have "snd (HandleEOSArray_loop e n (k * V) 0 (float_lowest, bl)) (r * V + x) = bl (r * V + x)"
    using no by (auto simp: loop_buffer)
  moreover have "r * V + x \<noteq> k * V + e 0" using no [of 0] n by simp
  ultimately show ?thesis
    unfolding eos_thread_eq k_def [symmetric] by simp
qed

lemma eos_fold_other_rows:
  assumes range: "\<And>j. 0 \<le> j \<Longrightarrow> j < n \<Longrightarrow> 0 \<le> e j \<and> e j < V"
    and n: "1 \<le> n" and x: "0 \<le> x" "x < V" and ks: "\<And>k. k \<in> set ks \<Longrightarrow> int k \<noteq> r"
  shows "fold (\<lambda>k l. HandleEOSArray l bbs V e n (256, 1, 1) ((k div 256, 0, 0), (k mod 256, 0, 0))) ks bl
           (r * V + x) = bl (r * V + x)"
  using ks
proof (induction ks arbitrary: bl)
  case Nil
  show ?case by simp
next
  case (Cons k ks)
  have "k div 256 * 256 + k mod 256 = k" by simp
  then have "int (k div 256 * 256 + k mod 256) \<noteq> r" using Cons.prems [of k] by simp
  then have "HandleEOSArray bl bbs V e n (256, 1, 1) ((k div 256, 0, 0), (k mod 256, 0, 0)) (r * V + x)
      = bl (r * V + x)"
    using range n x by (intro eos_thread_other_row) auto
  then show ?case using Cons.IH Cons.prems by simp
qed


text \<open>One row of the logits after the launch, for ids in range and pairwise different.\<close>

lemma eos_row:
  assumes r: "0 \<le> r" "r < bbs" and n: "1 \<le> n"
    and range: "\<And>j. 0 \<le> j \<Longrightarrow> j < n \<Longrightarrow> 0 \<le> e j \<and> e j < V"
    and uniq: "\<And>j k. 0 \<le> j \<Longrightarrow> j < k \<Longrightarrow> k < n \<Longrightarrow> e j \<noteq> e k"
  shows "(\<forall>j. 1 \<le> j \<and> j < n \<longrightarrow> LaunchHandleEOSArray logits bbs V e n (r * V + e j) = float_lowest) \<and>
         (LaunchHandleEOSArray logits bbs V e n (r * V + e 0) = float_lowest \<or>
          (\<exists>j. 0 \<le> j \<and> j < n \<and>
             LaunchHandleEOSArray logits bbs V e n (r * V + e 0) = logits (r * V + e j))) \<and>
         (\<forall>j. 0 \<le> j \<and> j < n \<longrightarrow>
            \<not> float_less (LaunchHandleEOSArray logits bbs V e n (r * V + e 0)) (logits (r * V + e j))) \<and>
         \<not> float_less (LaunchHandleEOSArray logits bbs V e n (r * V + e 0)) float_lowest \<and>
         \<not> float_is_nan (LaunchHandleEOSArray logits bbs V e n (r * V + e 0))"
proof -
  define m where "m = nat ((bbs + 255) sdiv 256) * 256"
  define body where "body = (\<lambda>k l. HandleEOSArray l bbs V e n (256, 1, 1)
     ((k div 256, 0, 0), (k mod 256, 0, 0)))"
  define b1 where "b1 = fold body [0..<nat r] logits"
  define L where "L = HandleEOSArray_loop e n (r * V) 0 (float_lowest, b1)"
  define b2 where "b2 = body (nat r) b1"
  let ?out = "LaunchHandleEOSArray logits bbs V e n"
  have launch: "?out = fold body [0..<m] logits"
    unfolding LaunchHandleEOSArray_def m_def body_def by (rule launch_1d) simp
  have "bbs \<le> int m" unfolding m_def by (rule blocks_cover)
  then have rm: "nat r < m" using r by simp
  have "[0..<m] = [0..<nat r] @ [nat r..<m]"
    using rm upt_add_eq_append [of 0 "nat r" "m - nat r"] by simp
  also have "[nat r..<m] = nat r # [Suc (nat r)..<m]"
    using rm by (rule upt_conv_Cons)
  finally have out: "?out = fold body [Suc (nat r)..<m] b2"
    by (simp add: launch b1_def b2_def)
  have row_after: "?out (r * V + x) = b2 (r * V + x)" if "0 \<le> x" "x < V" for x
    unfolding out body_def using range n that
    by (intro eos_fold_other_rows) (use r in auto)
  have row_before: "b1 (r * V + x) = logits (r * V + x)" if "0 \<le> x" "x < V" for x
    unfolding b1_def body_def using range n that
    by (intro eos_fold_other_rows) (use r in auto)
  have "int (nat r div 256 * 256 + nat r mod 256) = r" using r by simp
  then have b2: "b2 = (snd L)(r * V + e 0 := fst L)"
    unfolding b2_def body_def eos_thread_eq L_def using r by simp
  have e0: "0 \<le> e 0 \<and> e 0 < V" using range [of 0] n by simp
  have M: "?out (r * V + e 0) = fst L"
    using row_after [of "e 0"] e0 by (simp add: b2)
  have others: "?out (r * V + e j) = float_lowest" if "1 \<le> j \<and> j < n" for j
  proof -
    have "e 0 \<noteq> e j" using uniq [of 0 j] that by simp
    moreover have "snd L (r * V + e j) = float_lowest"
      unfolding L_def loop_buffer using that by auto
    ultimately show ?thesis
      using row_after [of "e j"] range [of j] that by (simp add: b2)
  qed
  have nan: "\<not> float_is_nan float_lowest"
    by (simp add: float_is_nan_def float_lowest_def)
  have max: "(fst L = float_lowest \<or> (\<exists>j. 0 \<le> j \<and> j < n \<and> fst L = b1 (r * V + e j))) \<and>
      \<not> float_less (fst L) float_lowest \<and>
      (\<forall>j. 0 \<le> j \<and> j < n \<longrightarrow> \<not> float_less (fst L) (b1 (r * V + e j))) \<and>
      \<not> float_is_nan (fst L)"
    unfolding L_def using uniq nan by (intro loop_max) simp_all
  have b1e: "b1 (r * V + e j) = logits (r * V + e j)" if "0 \<le> j \<and> j < n" for j
    using row_before [of "e j"] range [of j] that by simp
  from max b1e have "fst L = float_lowest \<or> (\<exists>j. 0 \<le> j \<and> j < n \<and> fst L = logits (r * V + e j))"
    by metis
  moreover from max b1e have "\<forall>j. 0 \<le> j \<and> j < n \<longrightarrow> \<not> float_less (fst L) (logits (r * V + e j))"
    by metis
  ultimately show ?thesis
    using others max unfolding M by blast
qed


text \<open>
  Claim C3, as the code has it. Let \<open>r\<close> be a row of the logits, and let the
  \<open>n \<ge> 1\<close> end-of-sequence ids be in range and pairwise different. After
  \<^verbatim>\<open>LaunchHandleEOSArray\<close> the slot of every id but the first holds
  \<^verbatim>\<open>std::numeric_limits<float>::lowest()\<close>, the least finite value (not negative
  infinity); the slot of the first id holds the greatest, by \<^verbatim>\<open>std::max\<close>, of that
  value and the scores the row had at the ids: it is that value or one of these scores,
  none of these scores and not that value is greater than it, and it is no NaN.
\<close>

theorem MergeEOS_primary_max_others_lowest:
  assumes "0 \<le> r" and "r < batch_beam_size" and "1 \<le> eos_token_ids_count"
    and "\<forall>j. 0 \<le> j \<and> j < eos_token_ids_count \<longrightarrow>
           0 \<le> eos_token_ids j \<and> eos_token_ids j < vocab_size"
    and "\<forall>j k. 0 \<le> j \<and> j < k \<and> k < eos_token_ids_count \<longrightarrow> eos_token_ids j \<noteq> eos_token_ids k"
  shows "(\<forall>j. 1 \<le> j \<and> j < eos_token_ids_count \<longrightarrow>
            LaunchHandleEOSArray batch_logits batch_beam_size vocab_size eos_token_ids
              eos_token_ids_count (r * vocab_size + eos_token_ids j) = float_lowest) \<and>
         (LaunchHandleEOSArray batch_logits batch_beam_size vocab_size eos_token_ids
            eos_token_ids_count (r * vocab_size + eos_token_ids 0) = float_lowest \<or>
          (\<exists>j. 0 \<le> j \<and> j < eos_token_ids_count \<and>
             LaunchHandleEOSArray batch_logits batch_beam_size vocab_size eos_token_ids
               eos_token_ids_count (r * vocab_size + eos_token_ids 0)
             = batch_logits (r * vocab_size + eos_token_ids j))) \<and>
         (\<forall>j. 0 \<le> j \<and> j < eos_token_ids_count \<longrightarrow>
            \<not> float_less
                (LaunchHandleEOSArray batch_logits batch_beam_size vocab_size eos_token_ids
                   eos_token_ids_count (r * vocab_size + eos_token_ids 0))
                (batch_logits (r * vocab_size + eos_token_ids j))) \<and>
         \<not> float_less
             (LaunchHandleEOSArray batch_logits batch_beam_size vocab_size eos_token_ids
                eos_token_ids_count (r * vocab_size + eos_token_ids 0))
             float_lowest \<and>
         \<not> float_is_nan
             (LaunchHandleEOSArray batch_logits batch_beam_size vocab_size eos_token_ids
                eos_token_ids_count (r * vocab_size + eos_token_ids 0))"
  using assms by (intro eos_row) simp_all

text \<open>
  The example of the spec: ids 7 and 9 with the scores 2.0 (\<open>0x40000000\<close>) and 5.0
  (\<open>0x40A00000\<close>). Slot 7 gets 5.0 and slot 9 gets the least finite value.
\<close>

theorem MergeEOS_primary_max_others_lowest_witness:
  "LaunchHandleEOSArray (\<lambda>k. if k = 7 then 0x40000000 else if k = 9 then 0x40A00000 else 0)
      1 16 (\<lambda>j. if j = 0 then 7 else 9) 2 7 = 0x40A00000 \<and>
   LaunchHandleEOSArray (\<lambda>k. if k = 7 then 0x40000000 else if k = 9 then 0x40A00000 else 0)
      1 16 (\<lambda>j. if j = 0 then 7 else 9) 2 9 = float_lowest"
proof -
  let ?logits = "\<lambda>k :: int. if k = 7 then 0x40000000 else if k = 9 then 0x40A00000 else (0 :: float32)"
  let ?e = "\<lambda>j :: int. if j = 0 then 7 else (9 :: int)"
  let ?out = "LaunchHandleEOSArray ?logits 1 16 ?e 2"
  have range: "\<forall>j. 0 \<le> j \<and> j < 2 \<longrightarrow> 0 \<le> ?e j \<and> ?e j < 16" by simp
  have uniq: "\<forall>j k. 0 \<le> j \<and> j < k \<and> k < 2 \<longrightarrow> ?e j \<noteq> ?e k" by auto
  note t = MergeEOS_primary_max_others_lowest [of 0 1 2 ?e 16 ?logits, OF _ _ _ range uniq]
  have others: "\<forall>j. 1 \<le> j \<and> j < 2 \<longrightarrow> ?out (0 * 16 + ?e j) = float_lowest"
    and one: "?out (0 * 16 + ?e 0) = float_lowest \<or>
      (\<exists>j. 0 \<le> j \<and> j < 2 \<and> ?out (0 * 16 + ?e 0) = ?logits (0 * 16 + ?e j))"
    and ge: "\<forall>j. 0 \<le> j \<and> j < 2 \<longrightarrow> \<not> float_less (?out (0 * 16 + ?e 0)) (?logits (0 * 16 + ?e j))"
    using t by simp_all
  from others [rule_format, of 1] have nine: "?out 9 = float_lowest" by simp
  from ge [rule_format, of 1] have ge5: "\<not> float_less (?out 7) 0x40A00000" by simp
  from one have "?out 7 = float_lowest \<or> ?out 7 = 0x40000000 \<or> ?out 7 = 0x40A00000"
    by (auto split: if_splits)
  moreover have "float_less float_lowest 0x40A00000" "float_less 0x40000000 0x40A00000"
    by (simp_all add: float_examples)
  ultimately have "?out 7 = 0x40A00000" using ge5 by auto
  with nine show ?thesis by simp
qed

text \<open>
  The claim as the spec states it (the other slots hold negative infinity, the first slot
  the maximum of the prior scores) does not hold: in the example, slot 9 holds the least
  finite value, which is not negative infinity; and in a row whose scores are all
  negative infinity, slot 7 holds the least finite value, not the maximum of the prior
  scores, which is negative infinity.
\<close>

theorem MergeEOS_negative_infinity_counterexample:
  "LaunchHandleEOSArray (\<lambda>k. if k = 7 then 0x40000000 else if k = 9 then 0x40A00000 else 0)
      1 16 (\<lambda>j. if j = 0 then 7 else 9) 2 9 = float_lowest \<and>
   LaunchHandleEOSArray (\<lambda>k. if k = 7 then 0x40000000 else if k = 9 then 0x40A00000 else 0)
      1 16 (\<lambda>j. if j = 0 then 7 else 9) 2 9 \<noteq> float_neg_infinity \<and>
   LaunchHandleEOSArray (\<lambda>k. float_neg_infinity) 1 16 (\<lambda>j. if j = 0 then 7 else 9) 2 7
     = float_lowest \<and>
   LaunchHandleEOSArray (\<lambda>k. float_neg_infinity) 1 16 (\<lambda>j. if j = 0 then 7 else 9) 2 7
     \<noteq> float_neg_infinity"
proof -
  have inf: "LaunchHandleEOSArray (\<lambda>k. float_neg_infinity) 1 16 (\<lambda>j. if j = 0 then 7 else 9) 2 7
      = float_lowest"
  proof -
    let ?e = "\<lambda>j :: int. if j = 0 then 7 else (9 :: int)"
    let ?out = "LaunchHandleEOSArray (\<lambda>k. float_neg_infinity) 1 16 ?e 2"
    have "?out (0 * 16 + ?e 0) = float_lowest \<or> ?out (0 * 16 + ?e 0) = float_neg_infinity"
      and "\<not> float_less (?out (0 * 16 + ?e 0)) float_lowest"
      using eos_row [of 0 1 2 ?e 16 "\<lambda>k. float_neg_infinity"] by auto
    then show ?thesis using float_examples(3) by auto
  qed
  let ?logits = "\<lambda>k :: int. if k = 7 then 0x40000000 else if k = 9 then 0x40A00000 else (0 :: float32)"
  let ?e = "\<lambda>j :: int. if j = 0 then 7 else (9 :: int)"
  have others: "\<forall>j. 1 \<le> j \<and> j < 2 \<longrightarrow>
      LaunchHandleEOSArray ?logits 1 16 ?e 2 (0 * 16 + ?e j) = float_lowest"
    using eos_row [of 0 1 2 ?e 16 ?logits] by auto
  from others [rule_format, of 1] have "LaunchHandleEOSArray ?logits 1 16 ?e 2 9 = float_lowest"
    by simp
  with inf show ?thesis by (simp add: float_examples)
qed

end
